theory Spec2Isabelle
  imports Main "HOL-Library.AList"
begin

section \<open>Strings and characters\<close>

text \<open>
  Python strings are modelled as \<^typ>\<open>string\<close>; a \<^typ>\<open>char\<close> stands for a code point
  below 256. \<open>is_space\<close> is \<^verbatim>\<open>str.isspace\<close> (and the class \<^verbatim>\<open>\s\<close> of \<^verbatim>\<open>re\<close>) on these
  code points; \<open>is_alpha\<close> is the class \<^verbatim>\<open>[a-zA-Z]\<close>.
\<close>

definition is_space :: "char \<Rightarrow> bool" where
  "is_space c =
     (let n = (of_char c :: nat)
      in (9 \<le> n \<and> n \<le> 13) \<or> (28 \<le> n \<and> n \<le> 32) \<or> n = 133 \<or> n = 160)"

definition is_upper :: "char \<Rightarrow> bool" where
  "is_upper c = (let n = (of_char c :: nat) in 65 \<le> n \<and> n \<le> 90)"

definition is_lower :: "char \<Rightarrow> bool" where
  "is_lower c = (let n = (of_char c :: nat) in 97 \<le> n \<and> n \<le> 122)"

definition is_alpha :: "char \<Rightarrow> bool" where
  "is_alpha c = (is_upper c \<or> is_lower c)"

definition to_lower :: "char \<Rightarrow> char" where
  "to_lower c = (if is_upper c then char_of (of_char c + (32::nat)) else c)"

definition to_upper :: "char \<Rightarrow> char" where
  "to_upper c = (if is_lower c then char_of (of_char c - (32::nat)) else c)"

text \<open>\<^verbatim>\<open>str.strip()\<close>, \<^verbatim>\<open>str.lower()\<close>, \<^verbatim>\<open>str.title()\<close> and \<^verbatim>\<open>str.startswith\<close>.\<close>

definition strip :: "string \<Rightarrow> string" where
  "strip s = rev (dropWhile is_space (rev (dropWhile is_space s)))"


fun title_from :: "bool \<Rightarrow> string \<Rightarrow> string" where
  "title_from prev [] = []"
| "title_from prev (c # cs) =
     (if is_alpha c then (if prev then to_lower c else to_upper c) # title_from True cs
      else c # title_from False cs)"

definition title_case :: "string \<Rightarrow> string" where
  "title_case s = title_from False s"

fun starts_with :: "string \<Rightarrow> string \<Rightarrow> bool" where
  "starts_with [] s = True"
| "starts_with (p # ps) [] = False"
| "starts_with (p # ps) (c # cs) = (p = c \<and> starts_with ps cs)"



text \<open>Decimal rendering of a natural number, as an f-string does.\<close>

fun str_of_nat :: "nat \<Rightarrow> string" where
  "str_of_nat n =
     (if n < 10 then [char_of (48 + n)]
      else str_of_nat (n div 10) @ [char_of (48 + n mod 10)])"

declare str_of_nat.simps [simp del]

text \<open>A backslash cannot be written inside a string literal: \<open>bs ''section{A}''\<close> is
  the text \<^verbatim>\<open>\section{A}\<close>.\<close>

abbreviation bslash :: char where
  "bslash \<equiv> CHR 0x5C"

abbreviation bs :: "string \<Rightarrow> string" where
  "bs s \<equiv> bslash # s"

section \<open>Regular expressions as anchored matchers\<close>

text \<open>
  Every regular expression of the source is modelled by an anchored matcher: a function
  that, given the text from a position on, returns the length of the match that Python's
  backtracking engine finds at this position together with the captured groups, or
  \<open>None\<close> when the expression does not match there. \<open>re_search\<close>, \<open>re_finditer\<close>
  and \<open>re_sub\<close> are the scanning functions of \<^verbatim>\<open>re\<close> on top of a matcher: leftmost
  match first, matches not overlapping. No expression of the source matches the empty
  string; a match of length 0 would make the scan advance by one character.
\<close>

type_synonym matcher = "string \<Rightarrow> (nat \<times> string list) option"

record rmatch =
  m_start :: nat
  m_end :: nat
  m_groups :: "string list"

definition group :: "rmatch \<Rightarrow> nat \<Rightarrow> string" where
  "group r i = m_groups r ! (i - 1)"

fun re_search_from :: "matcher \<Rightarrow> nat \<Rightarrow> string \<Rightarrow> rmatch option" where
  "re_search_from m p s =
     (case m s of
        Some (n, gs) \<Rightarrow> Some \<lparr>m_start = p, m_end = p + n, m_groups = gs\<rparr>
      | None \<Rightarrow> (case s of [] \<Rightarrow> None | c # cs \<Rightarrow> re_search_from m (Suc p) cs))"

definition re_search :: "matcher \<Rightarrow> string \<Rightarrow> rmatch option" where
  "re_search m s = re_search_from m 0 s"

fun re_finditer_from :: "matcher \<Rightarrow> nat \<Rightarrow> string \<Rightarrow> rmatch list" where
  "re_finditer_from m p [] = []"
| "re_finditer_from m p (c # cs) =
     (case m (c # cs) of
        None \<Rightarrow> re_finditer_from m (Suc p) cs
      | Some (n, gs) \<Rightarrow>
          \<lparr>m_start = p, m_end = p + n, m_groups = gs\<rparr>
            # re_finditer_from m (Suc (p + (n - 1))) (drop (n - 1) cs))"

definition re_finditer :: "matcher \<Rightarrow> string \<Rightarrow> rmatch list" where
  "re_finditer m s = re_finditer_from m 0 s"

text \<open>\<^verbatim>\<open>re.sub(pattern, repl, text)\<close>; \<open>f\<close> maps the matched text and its groups to the
  replacement.\<close>

fun re_sub :: "matcher \<Rightarrow> (string \<Rightarrow> string list \<Rightarrow> string) \<Rightarrow> string \<Rightarrow> string" where
  "re_sub m f [] = []"
| "re_sub m f (c # cs) =
     (case m (c # cs) of
        None \<Rightarrow> c # re_sub m f cs
      | Some (n, gs) \<Rightarrow> f (take n (c # cs)) gs @ re_sub m f (drop (n - 1) cs))"

text \<open>Greedy repetition with backtracking: the continuation \<open>k\<close> is tried on the repetition
  counts \<open>hi\<close>, \<open>hi - 1\<close>, ..., \<open>lo\<close>, and the first success is the match.\<close>

primrec tries :: "(nat \<Rightarrow> 'a option) \<Rightarrow> nat \<Rightarrow> nat \<Rightarrow> 'a option" where
  "tries k lo 0 = k lo"
| "tries k lo (Suc d) = (case k (lo + Suc d) of Some r \<Rightarrow> Some r | None \<Rightarrow> tries k lo d)"

definition greedy :: "(nat \<Rightarrow> 'a option) \<Rightarrow> nat \<Rightarrow> nat \<Rightarrow> 'a option" where
  "greedy k lo hi = (if hi < lo then None else tries k lo (hi - lo))"

text \<open>The length of the longest run of characters of a class at the start of a text.\<close>

definition run :: "(char \<Rightarrow> bool) \<Rightarrow> string \<Rightarrow> nat" where
  "run P s = length (takeWhile P s)"

text \<open>A literal string as a pattern, and \<^verbatim>\<open>str.replace(old, new)\<close>.\<close>

definition m_lit :: "string \<Rightarrow> matcher" where
  "m_lit p s = (if starts_with p s then Some (length p, []) else None)"

definition replace_all :: "string \<Rightarrow> string \<Rightarrow> string \<Rightarrow> string" where
  "replace_all old new s = re_sub (m_lit old) (\<lambda>_ _. new) s"

section \<open>The text sanitizer\<close>

text \<open>\<^verbatim>\<open>\$([^$]+)\$\<close>\<close>

definition m_dollar_math :: matcher where
  "m_dollar_math s =
     (case s of
        [] \<Rightarrow> None
      | c # rest \<Rightarrow>
          if c = CHR ''$'' then
            greedy (\<lambda>j. if starts_with ''$'' (drop j rest) then Some (j + 2, [take j rest]) else None)
              1 (run (\<lambda>x. x \<noteq> CHR ''$'') rest)
          else None)"

text \<open>\<^verbatim>\<open>\\?\\\(([^)]+)\\\)\<close>: an optional backslash, then \<^verbatim>\<open>\(\<close>, a greedy run without a
  closing parenthesis, then \<^verbatim>\<open>\)\<close>.\<close>

definition m_paren_body :: "nat \<Rightarrow> string \<Rightarrow> (nat \<times> string list) option" where
  "m_paren_body pre s =
     (if starts_with [bslash, CHR ''(''] s then
        (let rest = drop 2 s
         in greedy (\<lambda>j. if starts_with [bslash, CHR '')''] (drop j rest)
                         then Some (pre + 2 + j + 2, [take j rest]) else None)
              1 (run (\<lambda>x. x \<noteq> CHR '')'') rest))
      else None)"

definition m_paren_math :: matcher where
  "m_paren_math s =
     (case (if starts_with [bslash] s then m_paren_body 1 (drop 1 s) else None) of
        Some r \<Rightarrow> Some r
      | None \<Rightarrow> m_paren_body 0 s)"

text \<open>\<^verbatim>\<open>\\[a-zA-Z]+\*?\{([^}]*)\}\<close>: the letters are greedy, the star is optional (taken
  first), the argument is a greedy run without a closing brace.\<close>

definition m_brace_arg :: "nat \<Rightarrow> string \<Rightarrow> (nat \<times> string list) option" where
  "m_brace_arg pre s =
     (if starts_with ''{'' s then
        (let rest = drop 1 s
         in greedy (\<lambda>j. if starts_with ''}'' (drop j rest)
                         then Some (pre + 1 + j + 1, [take j rest]) else None)
              0 (run (\<lambda>x. x \<noteq> CHR ''}'') rest))
      else None)"

definition m_star_then :: "(nat \<Rightarrow> string \<Rightarrow> 'a option) \<Rightarrow> nat \<Rightarrow> string \<Rightarrow> 'a option" where
  "m_star_then k pre s =
     (case (if starts_with ''*'' s then k (pre + 1) (drop 1 s) else None) of
        Some r \<Rightarrow> Some r
      | None \<Rightarrow> k pre s)"

definition m_command_arg :: matcher where
  "m_command_arg s =
     (case s of
        [] \<Rightarrow> None
      | c # rest \<Rightarrow>
          if c = bslash then
            greedy (\<lambda>j. m_star_then m_brace_arg (1 + j) (drop j rest)) 1 (run is_alpha rest)
          else None)"

text \<open>\<^verbatim>\<open>\\[a-zA-Z]+\*?(?!\()\<close>: the negative lookahead makes the engine give back the star
  and then letters until the next character is not an opening parenthesis.\<close>

definition m_not_paren :: "nat \<Rightarrow> string \<Rightarrow> (nat \<times> string list) option" where
  "m_not_paren pre s = (if starts_with ''('' s then None else Some (pre, []))"

definition m_command_bare :: matcher where
  "m_command_bare s =
     (case s of
        [] \<Rightarrow> None
      | c # rest \<Rightarrow>
          if c = bslash then
            greedy (\<lambda>j. m_star_then m_not_paren (1 + j) (drop j rest)) 1 (run is_alpha rest)
          else None)"

text \<open>\<^verbatim>\<open>\{([^}]*)\}\<close>, \<^verbatim>\<open>\\\\\<close>, \<^verbatim>\<open>[~]\<close> and \<^verbatim>\<open>\s+\<close>.\<close>

definition m_braces :: matcher where
  "m_braces s = m_brace_arg 0 s"

definition m_linebreak :: matcher where
  "m_linebreak s = m_lit [bslash, bslash] s"

definition m_tilde :: matcher where
  "m_tilde s = m_lit ''~'' s"

definition m_spaces :: matcher where
  "m_spaces s = greedy (\<lambda>j. Some (j, [])) 1 (run is_space s)"

text \<open>The closure \<^verbatim>\<open>replace_math\<close> appends the matched text to \<^verbatim>\<open>math_expressions\<close> and
  returns the placeholder of its index; the list is threaded through the substitution.\<close>

definition placeholder :: "nat \<Rightarrow> string" where
  "placeholder i = ''__MATH_PLACEHOLDER_'' @ str_of_nat i @ ''__''"

fun re_sub_math :: "matcher \<Rightarrow> string list \<Rightarrow> string \<Rightarrow> string \<times> string list" where
  "re_sub_math m exprs [] = ([], exprs)"
| "re_sub_math m exprs (c # cs) =
     (case m (c # cs) of
        None \<Rightarrow> (let (r, es) = re_sub_math m exprs cs in (c # r, es))
      | Some (n, gs) \<Rightarrow>
          (let exprs1 = exprs @ [take n (c # cs)];
               (r, es) = re_sub_math m exprs1 (drop (n - 1) cs)
           in (placeholder (length exprs1 - 1) @ r, es)))"

definition strip_commands :: "string \<Rightarrow> string" where
  "strip_commands t =
     (let t1 = re_sub m_command_arg (\<lambda>_ gs. gs ! 0) t;
          t2 = re_sub m_command_bare (\<lambda>_ _. []) t1;
          t3 = re_sub m_braces (\<lambda>_ gs. gs ! 0) t2;
          t4 = re_sub m_linebreak (\<lambda>_ _. '' '') t3;
          t5 = re_sub m_tilde (\<lambda>_ _. '' '') t4
      in re_sub m_spaces (\<lambda>_ _. '' '') t5)"

definition restore_math :: "string list \<Rightarrow> string \<Rightarrow> string" where
  "restore_math exprs t =
     fold (\<lambda>(i, e) acc. replace_all (placeholder i) e acc) (enumerate 0 exprs) t"

definition clean_latex_text :: "string \<Rightarrow> string" where
  "clean_latex_text text =
     (let (p1, es1) = re_sub_math m_dollar_math [] text;
          (p2, es2) = re_sub_math m_paren_math es1 p1
      in strip (restore_math es2 (strip_commands p2)))"

section \<open>Body and title extraction\<close>

text \<open>Lazy repetition: the continuation is tried on the counts \<open>lo\<close>, \<open>lo + 1\<close>, ...,
  \<open>hi\<close>. \<open>m_until\<close> is \<^verbatim>\<open>(.*?)\<close> (with or without \<^verbatim>\<open>DOTALL\<close>) followed by a literal.\<close>

primrec tries_up :: "(nat \<Rightarrow> 'a option) \<Rightarrow> nat \<Rightarrow> nat \<Rightarrow> 'a option" where
  "tries_up k lo 0 = k lo"
| "tries_up k lo (Suc d) = (case k lo of Some r \<Rightarrow> Some r | None \<Rightarrow> tries_up k (Suc lo) d)"

definition lazy :: "(nat \<Rightarrow> 'a option) \<Rightarrow> nat \<Rightarrow> nat \<Rightarrow> 'a option" where
  "lazy k lo hi = (if hi < lo then None else tries_up k lo (hi - lo))"

definition newline :: char where
  "newline = CHR 0x0A"

definition m_until :: "bool \<Rightarrow> string \<Rightarrow> string \<Rightarrow> (nat \<times> string) option" where
  "m_until dotall closing s =
     lazy (\<lambda>j. if starts_with closing (drop j s) then Some (j + length closing, take j s) else None)
       0 (if dotall then length s else run (\<lambda>x. x \<noteq> newline) s)"

text \<open>\<^verbatim>\<open>\\begin\{document\}(.*?)\\end\{document\}\<close> with \<^verbatim>\<open>DOTALL\<close>.\<close>

definition m_document :: matcher where
  "m_document s =
     (if starts_with (bs ''begin{document}'') s then
        (case m_until True (bs ''end{document}'') (drop 16 s) of
           Some (n, g) \<Rightarrow> Some (16 + n, [g])
         | None \<Rightarrow> None)
      else None)"

text \<open>A literal, lazily anything up to a closing literal, then an optional newline:
  \<^verbatim>\<open>\\documentclass.*?\n\<close>, \<^verbatim>\<open>\\title\{.*?\}\n?\<close>, \<^verbatim>\<open>\\maketitle\n?\<close> and their like.\<close>

definition opt_newline :: "string \<Rightarrow> nat" where
  "opt_newline s = (if starts_with [newline] s then 1 else 0)"

definition m_line_command :: "string \<Rightarrow> matcher" where
  "m_line_command name s =
     (if starts_with (bs name) s then
        (case m_until False [newline] (drop (length (bs name)) s) of
           Some (n, g) \<Rightarrow> Some (length (bs name) + n, [])
         | None \<Rightarrow> None)
      else None)"

definition m_braced_command :: "string \<Rightarrow> matcher" where
  "m_braced_command name s =
     (let opening = bs name @ ''{'' in
      if starts_with opening s then
        (case m_until True ''}'' (drop (length opening) s) of
           Some (n, g) \<Rightarrow>
             Some (length opening + n + opt_newline (drop (length opening + n) s), [])
         | None \<Rightarrow> None)
      else None)"

definition m_maketitle :: matcher where
  "m_maketitle s =
     (let lit = bs ''maketitle'' in
      if starts_with lit s then Some (length lit + opt_newline (drop (length lit) s), [])
      else None)"

definition delete :: "string \<Rightarrow> string list \<Rightarrow> string" where
  "delete _ _ = []"

definition extract_document_body :: "string \<Rightarrow> string" where
  "extract_document_body tex_content =
     (case re_search m_document tex_content of
        Some r \<Rightarrow> group r 1
      | None \<Rightarrow>
          (let c1 = re_sub (m_line_command ''documentclass'') delete tex_content;
               c2 = re_sub (m_line_command ''usepackage'') delete c1;
               c3 = re_sub (m_braced_command ''title'') delete c2;
               c4 = re_sub (m_braced_command ''author'') delete c3;
               c5 = re_sub (m_braced_command ''date'') delete c4;
               c6 = re_sub m_maketitle delete c5;
               c7 = re_sub (m_line_command ''newtheorem'') delete c6
           in strip c7))"

text \<open>\<^verbatim>\<open>\{([^}]+)\}\<close> after a command name: a non-empty greedy run without a closing
  brace, then the closing brace.\<close>

definition m_title_arg :: "nat \<Rightarrow> string list \<Rightarrow> string \<Rightarrow> (nat \<times> string list) option" where
  "m_title_arg pre gs s =
     (if starts_with ''{'' s then
        (let rest = drop 1 s
         in greedy (\<lambda>j. if starts_with ''}'' (drop j rest)
                         then Some (pre + 1 + j + 1, gs @ [take j rest]) else None)
              1 (run (\<lambda>x. x \<noteq> CHR ''}'') rest))
      else None)"

text \<open>\<^verbatim>\<open>\\title\{([^}]+)\}\<close>\<close>

definition m_title :: matcher where
  "m_title s =
     (if starts_with (bs ''title'') s then m_title_arg 6 [] (drop 6 s) else None)"

text \<open>The number of repetitions of \<^verbatim>\<open>sub\<close> at the start of a text, for \<^verbatim>\<open>(?:sub)*\<close>.\<close>

fun sub_count :: "string \<Rightarrow> nat" where
  "sub_count (a # b # c # rest) =
     (if a = CHR ''s'' \<and> b = CHR ''u'' \<and> c = CHR ''b'' then Suc (sub_count rest) else 0)"
| "sub_count _ = 0"

text \<open>\<^verbatim>\<open>\\(?:sub)*section\{([^}]+)\}\<close>\<close>

definition m_first_section :: matcher where
  "m_first_section s =
     (case s of
        [] \<Rightarrow> None
      | c # rest \<Rightarrow>
          if c = bslash then
            greedy (\<lambda>i. let r = drop (3 * i) rest in
                         if starts_with ''section'' r
                         then m_title_arg (1 + 3 * i + 7) [] (drop 7 r) else None)
              0 (sub_count rest)
          else None)"

definition extract_document_title :: "string \<Rightarrow> string option" where
  "extract_document_title tex_content =
     (case re_search m_title tex_content of
        Some r \<Rightarrow> Some (clean_latex_text (group r 1))
      | None \<Rightarrow>
          (case re_search m_first_section tex_content of
             Some r \<Rightarrow> Some (clean_latex_text (group r 1))
           | None \<Rightarrow> None))"

text \<open>\<^verbatim>\<open>self._extract_document_title() or "LaTeX Document"\<close>: \<^verbatim>\<open>None\<close> and the empty
  string are both false.\<close>

definition document_title :: "string \<Rightarrow> string" where
  "document_title tex_content =
     (case extract_document_title tex_content of
        None \<Rightarrow> ''LaTeX Document''
      | Some t \<Rightarrow> if t = [] then ''LaTeX Document'' else t)"

section \<open>The node store\<close>

text \<open>
  \<^verbatim>\<open>MindMapNode\<close> objects are mutable and shared between the tree and the section stack,
  so the tree is kept in a store: a node's address is its index in the list, its children
  are addresses, and a new node is allocated at the end. The root is at address 0.
\<close>

record node =
  title :: string
  content :: string
  node_type :: string
  children :: "nat list"
  level :: int

type_synonym store = "node list"

definition mk_node :: "string \<Rightarrow> string \<Rightarrow> string \<Rightarrow> int \<Rightarrow> node" where
  "mk_node t c k l = \<lparr>title = t, content = c, node_type = k, children = [], level = l\<rparr>"

text \<open>\<^verbatim>\<open>parent.add_child(child)\<close> for a child that is already in the store, and for a node
  that has just been constructed.\<close>

definition add_child :: "store \<Rightarrow> nat \<Rightarrow> nat \<Rightarrow> store" where
  "add_child st parent child =
     st[parent := (st ! parent)\<lparr>children := children (st ! parent) @ [child]\<rparr>]"

definition add_new_child :: "nat \<Rightarrow> store \<Rightarrow> node \<Rightarrow> store" where
  "add_new_child parent st n = add_child (st @ [n]) parent (length st)"

text \<open>\<^verbatim>\<open>content[a:b]\<close> for \<open>0 \<le> a\<close> and \<open>0 \<le> b\<close>; empty when \<open>b \<le> a\<close>.\<close>

definition slice :: "string \<Rightarrow> nat \<Rightarrow> nat \<Rightarrow> string" where
  "slice s a b = take (b - a) (drop a s)"

section \<open>The block extractor\<close>

definition THEOREM_ENVS :: "string list" where
  "THEOREM_ENVS = [''theorem'', ''lemma'', ''proposition'', ''corollary'', ''definition'',
     ''example'', ''remark'', ''note'', ''proof'', ''claim'', ''fact'']"

definition EQUATION_ENVS :: "string list" where
  "EQUATION_ENVS = [''align'', ''equation'', ''gather'']"

text \<open>\<^verbatim>\<open>\\begin\{(n1|n2|...)\}\<close>: the alternatives are tried in order with \<open>k\<close> as the rest
  of the expression. An alternative matches only when the closing brace follows it, so the
  order of the names (for \<^verbatim>\<open>THEOREM_ENVS\<close> the iteration order of a set) does not change
  the match.\<close>

fun alternatives :: "string list \<Rightarrow> (string \<Rightarrow> string \<Rightarrow> 'a option) \<Rightarrow> string \<Rightarrow> 'a option" where
  "alternatives [] k s = None"
| "alternatives (n # ns) k s =
     (case (if starts_with (n @ ''}'') s then k n (drop (length n + 1) s) else None) of
        Some r \<Rightarrow> Some r
      | None \<Rightarrow> alternatives ns k s)"

definition m_begin :: "string list \<Rightarrow> matcher" where
  "m_begin names s =
     (if starts_with (bs ''begin{'') s
      then alternatives names (\<lambda>n rest. Some (7 + length n + 1, [n])) (drop 7 s)
      else None)"

text \<open>\<^verbatim>\<open>\\begin\{(n1|n2|...)\}(.*?)\\end\{\1\}\<close> with \<^verbatim>\<open>DOTALL\<close>.\<close>

definition m_env :: "string list \<Rightarrow> matcher" where
  "m_env names s =
     (if starts_with (bs ''begin{'') s
      then alternatives names
             (\<lambda>n rest. case m_until True (bs ''end{'' @ n @ ''}'') rest of
                          Some (j, g) \<Rightarrow> Some (7 + length n + 1 + j, [n, g])
                        | None \<Rightarrow> None)
             (drop 7 s)
      else None)"

text \<open>\<^verbatim>\<open>\\\[(.*?)\\\]\<close> and \<^verbatim>\<open>\$\$(.*?)\$\$\<close> with \<^verbatim>\<open>DOTALL\<close>.\<close>

definition m_delimited :: "string \<Rightarrow> string \<Rightarrow> matcher" where
  "m_delimited opening closing s =
     (if starts_with opening s then
        (case m_until True closing (drop (length opening) s) of
           Some (j, g) \<Rightarrow> Some (length opening + j, [g])
         | None \<Rightarrow> None)
      else None)"

definition m_bracket_math :: matcher where
  "m_bracket_math = m_delimited (bs ''['') (bs '']'')"

definition m_dollar_display :: matcher where
  "m_dollar_display = m_delimited ''$$'' ''$$''"

text \<open>\<^verbatim>\<open>\\paragraph\{([^}]*)\}([^\\]*?)(?=\\|\Z)\<close> with \<^verbatim>\<open>DOTALL\<close>: the label is a greedy
  run without a closing brace, the body a lazy run without a backslash that must end
  before a backslash or at the end of the text.\<close>

definition m_paragraph :: matcher where
  "m_paragraph s =
     (let opening = bs ''paragraph{'' in
      if starts_with opening s then
        (let rest = drop (length opening) s
         in greedy
              (\<lambda>j. if starts_with ''}'' (drop j rest) then
                      (let body = drop (j + 1) rest
                       in lazy (\<lambda>i. if drop i body = [] \<or> starts_with [bslash] (drop i body)
                                     then Some (length opening + j + 1 + i, [take j rest, take i body])
                                     else None)
                            0 (run (\<lambda>x. x \<noteq> bslash) body))
                    else None)
              0 (run (\<lambda>x. x \<noteq> CHR ''}'') rest))
      else None)"

text \<open>\<^verbatim>\<open>re.match(r'^\\[a-zA-Z]+', text)\<close>\<close>

definition starts_with_command :: "string \<Rightarrow> bool" where
  "starts_with_command s =
     (case s of c # d # _ \<Rightarrow> c = bslash \<and> is_alpha d | _ \<Rightarrow> False)"

text \<open>The dictionaries of \<^verbatim>\<open>all_elements\<close>; the key \<^verbatim>\<open>explanation\<close> may be absent.\<close>

record element =
  e_type :: string
  e_content :: string
  e_start :: nat
  e_end :: nat
  e_title :: string
  e_explanation :: "string option"

text \<open>\<^verbatim>\<open>match.group(2) if match.lastindex >= 2 else match.group(1)\<close>\<close>

definition eq_inner :: "rmatch \<Rightarrow> string" where
  "eq_inner r = (if length (m_groups r) \<ge> 2 then group r 2 else group r 1)"

definition equation_element :: "rmatch \<Rightarrow> element list" where
  "equation_element r =
     (let eq_content = strip (eq_inner r) in
      if eq_content \<noteq> [] then
        [\<lparr>e_type = ''equation'', e_content = eq_content, e_start = m_start r, e_end = m_end r,
          e_title = ''Key Equation'', e_explanation = None\<rparr>]
      else [])"

definition equation_patterns :: "matcher list" where
  "equation_patterns = [m_env EQUATION_ENVS, m_bracket_math, m_dollar_display]"

definition equation_elements :: "string \<Rightarrow> element list" where
  "equation_elements txt =
     concat (map (\<lambda>m. concat (map equation_element (re_finditer m txt))) equation_patterns)"

definition theorem_element :: "rmatch \<Rightarrow> element" where
  "theorem_element r =
     \<lparr>e_type = ''theorem'', e_content = clean_latex_text (group r 2), e_start = m_start r,
      e_end = m_end r, e_title = title_case (group r 1), e_explanation = None\<rparr>"

definition theorem_elements :: "string \<Rightarrow> element list" where
  "theorem_elements txt = map theorem_element (re_finditer (m_env THEOREM_ENVS) txt)"

definition paragraph_element :: "rmatch \<Rightarrow> element list" where
  "paragraph_element r =
     (let t = clean_latex_text (group r 1);
          para_title = (if t = [] then ''Note'' else t);
          para_content = clean_latex_text (group r 2) in
      if para_content \<noteq> [] then
        [\<lparr>e_type = ''paragraph'', e_content = para_content, e_start = m_start r, e_end = m_end r,
          e_title = para_title, e_explanation = None\<rparr>]
      else [])"

definition paragraph_elements :: "string \<Rightarrow> element list" where
  "paragraph_elements txt = concat (map paragraph_element (re_finditer m_paragraph txt))"

text \<open>\<^verbatim>\<open>all_elements.sort(key=lambda x: x['start'])\<close>: a stable sort.\<close>

definition all_elements :: "string \<Rightarrow> element list" where
  "all_elements txt =
     sort_key e_start (equation_elements txt @ theorem_elements txt @ paragraph_elements txt)"

text \<open>Attaching prose to the last enhanced element when it is an equation.\<close>

definition attach_before :: "string \<Rightarrow> element list \<Rightarrow> element list" where
  "attach_before text enhanced =
     (if enhanced \<noteq> [] \<and> e_type (last enhanced) = ''equation'' then
        butlast enhanced @
          [(last enhanced)\<lparr>e_explanation :=
             (case e_explanation (last enhanced) of
                None \<Rightarrow> Some text
              | Some old \<Rightarrow> Some (old @ '' '' @ text))\<rparr>]
      else enhanced)"

text \<open>The sweep over the sorted elements; the state is \<^verbatim>\<open>enhanced_elements\<close> and
  \<^verbatim>\<open>last_end\<close>.\<close>

fun enhance :: "string \<Rightarrow> element list \<Rightarrow> element list \<Rightarrow> nat \<Rightarrow> element list" where
  "enhance txt [] enhanced last_end = enhanced"
| "enhance txt (e # es) enhanced last_end =
     (let enhanced1 =
            (if e_start e > last_end then
               (let text_before = strip (slice txt last_end (e_start e)) in
                if text_before \<noteq> [] \<and> \<not> starts_with_command text_before then
                  (let text_before_clean = clean_latex_text text_before in
                   if text_before_clean \<noteq> [] then attach_before text_before_clean enhanced
                   else enhanced)
                else enhanced)
             else enhanced);
          enhanced2 = enhanced1 @ [e];
          next_start = (case es of [] \<Rightarrow> length txt | e' # _ \<Rightarrow> e_start e');
          text_after = strip (slice txt (e_end e) next_start);
          enhanced3 =
            (if text_after \<noteq> [] \<and> \<not> starts_with_command text_after then
               (let text_after_clean = clean_latex_text text_after in
                if text_after_clean \<noteq> [] then
                  (if e_type e = ''equation'' then
                     butlast enhanced2 @ [(last enhanced2)\<lparr>e_explanation := Some text_after_clean\<rparr>]
                   else
                     enhanced2 @
                       [\<lparr>e_type = ''explanation'', e_content = text_after_clean, e_start = e_end e,
                         e_end = next_start, e_title = ''Explanation'', e_explanation = None\<rparr>])
                else enhanced2)
             else enhanced2)
      in enhance txt es enhanced3 next_start)"

definition enhanced_elements :: "string \<Rightarrow> element list" where
  "enhanced_elements txt = enhance txt (all_elements txt) [] 0"

text \<open>The node that the last loop of \<^verbatim>\<open>_add_structured_content_to_section\<close> creates for an
  element; \<open>l\<close> is \<^verbatim>\<open>section_node.level + 1\<close>.\<close>

definition element_node :: "int \<Rightarrow> element \<Rightarrow> node list" where
  "element_node l e =
     (if e_type e = ''equation'' then
        (case e_explanation e of
           Some ex \<Rightarrow>
             if ex \<noteq> [] then
               [mk_node ''Key Equation'' (''$$'' @ e_content e @ ''$$ '' @ ex)
                  ''equation_with_explanation'' l]
             else [mk_node ''Key Equation'' (''$$'' @ e_content e @ ''$$'') ''equation'' l]
         | None \<Rightarrow> [mk_node ''Key Equation'' (''$$'' @ e_content e @ ''$$'') ''equation'' l])
      else if e_type e = ''theorem'' then [mk_node (e_title e) (e_content e) ''theorem'' l]
      else if e_type e = ''paragraph'' then [mk_node (e_title e) (e_content e) ''paragraph'' l]
      else if e_type e = ''explanation'' then [mk_node (e_title e) (e_content e) ''explanation'' l]
      else [])"

definition structured_nodes :: "string \<Rightarrow> int \<Rightarrow> node list" where
  "structured_nodes txt l = concat (map (element_node l) (enhanced_elements txt))"

definition add_structured_content_to_section :: "string \<Rightarrow> nat \<Rightarrow> store \<Rightarrow> store" where
  "add_structured_content_to_section txt sec st =
     fold (\<lambda>n st'. add_new_child sec st' n) (structured_nodes txt (level (st ! sec) + 1)) st"

section \<open>The structural segmenter\<close>

text \<open>\<^verbatim>\<open>\\((?:sub)*(?:sub)*section)\{([^}]+)\}\<close>: two greedy repetitions of \<^verbatim>\<open>sub\<close>, the
  word \<^verbatim>\<open>section\<close>, and a non-empty argument without a closing brace. \<open>m_section_tail\<close>
  is the expression from the word \<^verbatim>\<open>section\<close> on, after \<open>k\<close> repetitions of \<^verbatim>\<open>sub\<close>.\<close>

definition m_section_tail :: "string \<Rightarrow> nat \<Rightarrow> (nat \<times> string list) option" where
  "m_section_tail rest k =
     (let n = 3 * k in
      if starts_with ''section'' (drop n rest)
      then m_title_arg (1 + n + 7) [take (n + 7) rest] (drop (n + 7) rest)
      else None)"

definition m_section :: matcher where
  "m_section s =
     (case s of
        [] \<Rightarrow> None
      | c # rest \<Rightarrow>
          if c = bslash then
            greedy (\<lambda>i. greedy (\<lambda>j. m_section_tail rest (i + j)) 0 (sub_count (drop (3 * i) rest)))
              0 (sub_count rest)
          else None)"

definition SECTION_LEVELS :: "(string \<times> int) list" where
  "SECTION_LEVELS =
     [(''part'', 0), (''chapter'', 1), (''section'', 2), (''subsection'', 3),
      (''subsubsection'', 4), (''paragraph'', 5), (''subparagraph'', 6)]"

text \<open>\<^verbatim>\<open>self.SECTION_LEVELS.get(section_type, 2)\<close>\<close>

definition section_level :: "string \<Rightarrow> int" where
  "section_level t = (case map_of SECTION_LEVELS t of Some l \<Rightarrow> l | None \<Rightarrow> 2)"

text \<open>The five expressions that end the main text of a section, and the position of the
  first match of any of them.\<close>

definition math_patterns :: "matcher list" where
  "math_patterns =
     [m_begin EQUATION_ENVS, m_lit (bs ''[''), m_lit ''$$'', m_lit (bs ''paragraph{''),
      m_begin THEOREM_ENVS]"

definition first_math_pos :: "string \<Rightarrow> nat" where
  "first_math_pos txt =
     fold (\<lambda>m pos. case re_search m txt of
                      Some r \<Rightarrow> if m_start r < pos then m_start r else pos
                    | None \<Rightarrow> pos)
       math_patterns (length txt)"

definition extract_main_text :: "string \<Rightarrow> string" where
  "extract_main_text txt =
     (let main_text = strip (take (first_math_pos txt) txt)
      in if main_text \<noteq> [] then clean_latex_text main_text else [])"

definition extract_remaining_content :: "string \<Rightarrow> string" where
  "extract_remaining_content txt =
     (if first_math_pos txt < length txt then strip (drop (first_math_pos txt) txt) else [])"

text \<open>The section stack is the dictionary from levels to nodes (addresses). \<^verbatim>\<open>max\<close> of
  an empty dictionary and a missing key raise.\<close>

type_synonym stack = "(int \<times> nat) list"

datatype error = ValueError | KeyError

function find_parent_level :: "stack \<Rightarrow> int \<Rightarrow> int" where
  "find_parent_level stk pl =
     (if pl \<ge> 0 \<and> map_of stk pl = None then find_parent_level stk (pl - 1) else pl)"
  by pat_completeness auto
termination
  by (relation "measure (\<lambda>(stk, pl). nat (pl + 1))") auto

declare find_parent_level.simps [simp del]

text \<open>One theorem environment of loose text: the first definition is merged into a
  current section that has no content and no children; every other environment becomes a
  child.\<close>

definition loose_theorem :: "nat \<Rightarrow> rmatch \<Rightarrow> store \<Rightarrow> store" where
  "loose_theorem cur r st =
     (let env_name = group r 1;
          env_content = clean_latex_text (group r 2) in
      if env_name = ''definition'' \<and> content (st ! cur) = [] \<and> children (st ! cur) = [] then
        st[cur := (st ! cur)\<lparr>content := env_content, node_type := ''section_with_definition''\<rparr>]
      else
        add_new_child cur st
          (mk_node (title_case env_name) env_content env_name (level (st ! cur) + 1)))"

text \<open>\<^verbatim>\<open>\\begin\{equation\}(.*?)\\end\{equation\}\<close> with \<^verbatim>\<open>DOTALL\<close>.\<close>

definition m_equation_env :: matcher where
  "m_equation_env = m_delimited (bs ''begin{equation}'') (bs ''end{equation}'')"

definition loose_equation :: "nat \<Rightarrow> rmatch \<Rightarrow> store \<Rightarrow> store" where
  "loose_equation cur r st =
     add_new_child cur st
       (mk_node ''Equation'' (''$$'' @ strip (group r 1) @ ''$$'') ''equation''
          (level (st ! cur) + 1))"

definition add_content_to_current_section :: "string \<Rightarrow> stack \<Rightarrow> store \<Rightarrow> error + store" where
  "add_content_to_current_section txt stk st =
     (if stk = [] then Inl ValueError
      else
        (case map_of stk (Max (set (map fst stk))) of
           None \<Rightarrow> Inr st
         | Some cur \<Rightarrow>
             (let st1 = fold (loose_theorem cur) (re_finditer (m_env THEOREM_ENVS) txt) st
              in Inr (fold (loose_equation cur) (re_finditer m_equation_env txt) st1))))"

text \<open>One iteration of the loop over the section matches: the state is the store, the
  section stack and \<^verbatim>\<open>current_pos\<close>.\<close>

definition attach_section :: "stack \<Rightarrow> int \<Rightarrow> nat \<Rightarrow> store \<Rightarrow> error + store" where
  "attach_section stk lvl a st =
     (let parent_level = find_parent_level stk (lvl - 1) in
      if parent_level \<ge> 0 then
        (case map_of stk parent_level of
           None \<Rightarrow> Inl KeyError
         | Some parent \<Rightarrow> Inr (add_child st parent a))
      else Inr st)"

definition pre_content_step :: "string \<Rightarrow> rmatch \<Rightarrow> stack \<Rightarrow> nat \<Rightarrow> store \<Rightarrow> error + store" where
  "pre_content_step txt r stk current_pos st =
     (if current_pos < m_start r then
        (let pre_content = strip (slice txt current_pos (m_start r)) in
         if pre_content \<noteq> [] then add_content_to_current_section pre_content stk st
         else Inr st)
      else Inr st)"

definition section_step ::
    "string \<Rightarrow> rmatch \<Rightarrow> nat \<Rightarrow> store \<times> stack \<times> nat \<Rightarrow> error + store \<times> stack \<times> nat" where
  "section_step txt r next_match_start state =
     (case state of (st, stk, current_pos) \<Rightarrow>
        (case pre_content_step txt r stk current_pos st of
           Inl e \<Rightarrow> Inl e
         | Inr st1 \<Rightarrow>
             (let section_content = strip (slice txt (m_end r) next_match_start);
                  section_type = group r 1;
                  section_title = clean_latex_text (group r 2);
                  lvl = section_level section_type;
                  main_text = extract_main_text section_content;
                  a = length st1;
                  st2 = st1 @ [mk_node section_title main_text section_type lvl]
              in case attach_section stk lvl a st2 of
                   Inl e \<Rightarrow> Inl e
                 | Inr st3 \<Rightarrow>
                     (let stk1 = AList.update lvl a stk;
                          stk2 = filter (\<lambda>(l, _). \<not> l > lvl) stk1;
                          remaining_content = extract_remaining_content section_content;
                          st4 = (if remaining_content \<noteq> []
                                 then add_structured_content_to_section remaining_content a st3
                                 else st3)
                      in Inr (st4, stk2, next_match_start)))))"

fun parse_sections ::
    "string \<Rightarrow> rmatch list \<Rightarrow> store \<times> stack \<times> nat \<Rightarrow> error + store \<times> stack \<times> nat" where
  "parse_sections txt [] state = Inr state"
| "parse_sections txt (r # rs) state =
     (case section_step txt r (case rs of [] \<Rightarrow> length txt | r' # _ \<Rightarrow> m_start r') state of
        Inl e \<Rightarrow> Inl e
      | Inr state' \<Rightarrow> parse_sections txt rs state')"

text \<open>\<^verbatim>\<open>_parse_with_regex_fallback(content, root)\<close>: the store holds the root at address 0.\<close>

definition parse_with_regex_fallback :: "string \<Rightarrow> node \<Rightarrow> error + store" where
  "parse_with_regex_fallback txt root =
     (case parse_sections txt (re_finditer m_section txt) ([root], [(0, 0)], 0) of
        Inl e \<Rightarrow> Inl e
      | Inr (st, stk, current_pos) \<Rightarrow>
          if current_pos < length txt then
            (let remaining_content = strip (drop current_pos txt) in
             if remaining_content \<noteq> [] then add_content_to_current_section remaining_content stk st
             else Inr st)
          else Inr st)"

text \<open>\<^verbatim>\<open>LatexParser(tex_content).parse()\<close>; both branches on \<^verbatim>\<open>PYLATEXENC_AVAILABLE\<close> call the
  regular-expression parser.\<close>

definition parse :: "string \<Rightarrow> error + store" where
  "parse tex_content =
     (let body = extract_document_body tex_content;
          root = mk_node (document_title tex_content) [] ''document'' 0
      in parse_with_regex_fallback body root)"

section \<open>The outline renderer\<close>


fun split_from :: "string \<Rightarrow> string \<Rightarrow> string \<Rightarrow> string list" where
  "split_from sep acc [] = [acc]"
| "split_from sep acc (c # cs) =
     (if starts_with sep (c # cs) then acc # split_from sep [] (drop (length sep - 1) cs)
      else split_from sep (acc @ [c]) cs)"

definition split :: "string \<Rightarrow> string \<Rightarrow> string list" where
  "split sep s = split_from sep [] s"










text \<open>\<^verbatim>\<open>title if len(title) <= 50 else title[:47] + "..."\<close>\<close>

definition short_title :: "string \<Rightarrow> string" where
  "short_title t = (if length t \<le> 50 then t else take 47 t @ ''...'')"





section \<open>Invariants of the store\<close>

text \<open>Every child of a node is in the store and has a greater level; the root is at
  address 0, has level 0 and is the document (or a document that a definition was merged
  into).\<close>

definition children_ok :: "store \<Rightarrow> node \<Rightarrow> bool" where
  "children_ok st n = list_all (\<lambda>c. c < length st \<and> level n < level (st ! c)) (children n)"

definition level_monotone :: "store \<Rightarrow> bool" where
  "level_monotone st = list_all (children_ok st) st"

definition root_ok :: "store \<Rightarrow> bool" where
  "root_ok st =
     (st \<noteq> [] \<and> level (st ! 0) = 0 \<and>
      (node_type (st ! 0) = ''document'' \<or> node_type (st ! 0) = ''section_with_definition''))"

text \<open>For the proofs: the store of a later state keeps the nodes of an earlier one at
  their addresses with their levels, and every entry of the section stack is the address of
  a node of the entry's level.\<close>

definition store_ok :: "store \<Rightarrow> bool" where
  "store_ok st = (root_ok st \<and> level_monotone st)"

definition extends :: "store \<Rightarrow> store \<Rightarrow> bool" where
  "extends st st' =
     (length st \<le> length st' \<and> (\<forall>a < length st. level (st' ! a) = level (st ! a)))"

definition stack_ok :: "store \<Rightarrow> stack \<Rightarrow> bool" where
  "stack_ok st stk = (stk \<noteq> [] \<and> (\<forall>(l, a) \<in> set stk. a < length st \<and> level (st ! a) = l))"

section \<open>Elements and the nodes made from them\<close>

text \<open>The two kinds of equation nodes; and, for the proofs, the part of an element that the
  sweep over the sorted elements never changes, taken over the elements that the sweep does
  not add itself.\<close>

definition is_equation_kind :: "string \<Rightarrow> bool" where
  "is_equation_kind k = (k = ''equation'' \<or> k = ''equation_with_explanation'')"

definition core :: "element \<Rightarrow> string \<times> string \<times> string" where
  "core e = (e_type e, e_content e, e_title e)"

definition proj :: "element list \<Rightarrow> (string \<times> string \<times> string) list" where
  "proj es = map core (filter (\<lambda>e. e_type e \<noteq> ''explanation'') es)"

section \<open>Section nodes\<close>







section \<open>Plain text and whitespace normalization\<close>

text \<open>Plain text has no brace and no dollar sign, and a backslash in it is not followed by
  a letter (a command), by another backslash (a line break) or by a parenthesis or bracket (a
  math delimiter).\<close>

definition is_markup_char :: "char \<Rightarrow> bool" where
  "is_markup_char c = (c = CHR ''{'' \<or> c = CHR ''}'' \<or> c = CHR ''$'')"

definition starts_markup :: "string \<Rightarrow> bool" where
  "starts_markup s =
     (case s of
        [] \<Rightarrow> False
      | d # _ \<Rightarrow> is_alpha d \<or> d = bslash \<or> d = CHR ''('' \<or> d = CHR '')'' \<or> d = CHR ''['' \<or>
                 d = CHR '']'')"

fun plain :: "string \<Rightarrow> bool" where
  "plain [] = True"
| "plain (c # cs) =
     (\<not> is_markup_char c \<and> (if c = bslash then \<not> starts_markup cs else True) \<and> plain cs)"

text \<open>Whitespace normalization in the words of the specification: a non-breaking-space
  marker becomes a space, a run of whitespace collapses to one space, and the text is
  trimmed. \<open>single_spaced\<close> holds of a text whose only whitespace is single spaces.\<close>

definition tilde_to_space :: "char \<Rightarrow> char" where
  "tilde_to_space c = (if c = CHR ''~'' then CHR '' '' else c)"

fun collapse_from :: "bool \<Rightarrow> string \<Rightarrow> string" where
  "collapse_from prev [] = []"
| "collapse_from prev (c # cs) =
     (if is_space c then (if prev then collapse_from True cs else CHR '' '' # collapse_from True cs)
      else c # collapse_from False cs)"

definition normalize_whitespace :: "string \<Rightarrow> string" where
  "normalize_whitespace t = strip (collapse_from False (map tilde_to_space t))"

fun single_spaced :: "bool \<Rightarrow> string \<Rightarrow> bool" where
  "single_spaced prev [] = True"
| "single_spaced prev (c # cs) =
     (if is_space c then c = CHR '' '' \<and> \<not> prev \<and> single_spaced True cs
      else single_spaced False cs)"

section \<open>Occurrences of the title and section commands\<close>



section \<open>Rendered nodes and detail blocks\<close>






section \<open>Properties of the sanitizer\<close>

text \<open>
  C5 (math preservation). The claim: for every text containing an inline math span
  \<^verbatim>\<open>$...$\<close> or \<^verbatim>\<open>\(...\)\<close>, the output of the sanitizer contains that span unchanged.
  The expression protecting \<^verbatim>\<open>\(...\)\<close> excludes every closing parenthesis from the
  span, so the span \<^verbatim>\<open>\(\sin(x)\)\<close> is not protected; the rule deleting bare commands
  then removes \<^verbatim>\<open>\si\<close> from inside it, and the output is \<^verbatim>\<open>\(n(x)\)\<close>.
\<close>

theorem C5_paren_math_not_preserved:
  "clean_latex_text (bs ''('' @ bs ''sin(x)'' @ bs '')'') = bs ''(n(x)'' @ bs '')''"
  by code_simp

section \<open>Lists, definitions and theorem kinds in a section\<close>

text \<open>
  C2 (list containers). The claim: a section span with an \<^verbatim>\<open>itemize\<close> or \<^verbatim>\<open>enumerate\<close>
  environment gets a list-container node with one item child per \<^verbatim>\<open>\item\<close>. The parser
  always takes \<^verbatim>\<open>_parse_with_regex_fallback\<close>, whose block extractor has no expression for
  lists (\<^verbatim>\<open>_handle_list_environment\<close> is reached only from the unused
  \<^verbatim>\<open>_parse_with_pylatexenc\<close>). A list that opens a section is sanitized into the section's
  content; a list after an equation starts with a command and is skipped. No list node is
  created in either case.
\<close>

theorem C2_list_environment_no_node:
  "parse (bs ''section{A}'' @ bs ''begin{itemize}'' @ bs ''item a'' @ bs ''item b'' @
          bs ''end{itemize}'') =
     Inr [mk_node ''A'' [] ''document'' 0 \<lparr>children := [1]\<rparr>,
          mk_node ''A'' ''itemize a bitemize'' ''section'' 2] \<and>
   parse (bs ''section{A}'' @ bs ''begin{equation}x'' @ bs ''end{equation}'' @
          bs ''begin{itemize}'' @ bs ''item a'' @ bs ''item b'' @ bs ''end{itemize}'') =
     Inr [mk_node ''A'' [] ''document'' 0 \<lparr>children := [1]\<rparr>,
          mk_node ''A'' [] ''section'' 2 \<lparr>children := [2]\<rparr>,
          mk_node ''Key Equation'' ''$$x$$'' ''equation'' 3]"
  by code_simp

text \<open>
  C3 (definition merged into its section). The claim: a section whose first structural
  element is a definition environment takes the definition's body as its own content,
  becomes a \<^verbatim>\<open>section_with_definition\<close> and gets no child for it. The merge is written in
  \<^verbatim>\<open>_add_content_to_current_section\<close>, which handles loose text only;
  \<^verbatim>\<open>_add_structured_content_to_section\<close>, which handles the span of a section, has no such
  rule. For the section of the spec's third scenario the section keeps its kind and empty
  content and gets one child.
\<close>

theorem C3_definition_not_merged_into_section:
  "parse (bs ''section{Widgets}'' @ bs ''begin{definition}A widget is...'' @
          bs ''end{definition}'') =
     Inr [mk_node ''Widgets'' [] ''document'' 0 \<lparr>children := [1]\<rparr>,
          mk_node ''Widgets'' [] ''section'' 2 \<lparr>children := [2]\<rparr>,
          mk_node ''Definition'' ''A widget is...'' ''theorem'' 3]"
  by code_simp

text \<open>
  C4 (kind of a theorem-like node). The claim: the node of a theorem-like environment has
  the environment name as its kind. The block extractor gives every such node the kind
  \<^verbatim>\<open>theorem\<close>; the title and the content are as claimed. (The loose-text path passes
  \<^verbatim>\<open>env_name\<close> as the kind.)
\<close>

theorem C4_lemma_node_has_kind_theorem:
  "parse (bs ''section{A}'' @ bs ''begin{lemma}X'' @ bs ''end{lemma}'') =
     Inr [mk_node ''A'' [] ''document'' 0 \<lparr>children := [1]\<rparr>,
          mk_node ''A'' [] ''section'' 2 \<lparr>children := [2]\<rparr>,
          mk_node ''Lemma'' ''X'' ''theorem'' 3]"
  by code_simp

section \<open>Level monotonicity\<close>

lemma level_monotone_iff:
  "level_monotone st \<longleftrightarrow>
     (\<forall>a < length st. \<forall>c \<in> set (children (st ! a)). c < length st \<and> level (st ! a) < level (st ! c))"
  by (simp add: level_monotone_def children_ok_def list_all_iff all_set_conv_all_nth)

lemma extends_refl: "extends st st"
  by (simp add: extends_def)

lemma extends_trans: "extends a b \<Longrightarrow> extends b c \<Longrightarrow> extends a c"
  by (auto simp: extends_def)

lemma stack_ok_extends: "stack_ok st stk \<Longrightarrow> extends st st' \<Longrightarrow> stack_ok st' stk"
  by (fastforce simp: stack_ok_def extends_def)

lemma add_child_nth:
  "a < length st \<Longrightarrow>
     add_child st p c ! a = (if a = p then (st ! p)\<lparr>children := children (st ! p) @ [c]\<rparr> else st ! a)"
  by (simp add: add_child_def)

lemma add_child_length: "length (add_child st p c) = length st"
  by (simp add: add_child_def)

lemma add_child_ok:
  assumes "store_ok st" "p < length st" "c < length st" "level (st ! p) < level (st ! c)"
  shows "store_ok (add_child st p c) \<and> extends st (add_child st p c)"
proof -
  have lv: "\<And>a. a < length st \<Longrightarrow> level (add_child st p c ! a) = level (st ! a)"
    by (simp add: add_child_nth)
  have nt: "\<And>a. a < length st \<Longrightarrow> node_type (add_child st p c ! a) = node_type (st ! a)"
    by (simp add: add_child_nth)
  have ch: "\<And>a. a < length st \<Longrightarrow>
      set (children (add_child st p c ! a)) \<subseteq> set (children (st ! a)) \<union> (if a = p then {c} else {})"
    by (simp add: add_child_nth)
  from assms have r: "root_ok st" and m: "level_monotone st" by (auto simp: store_ok_def)
  from r have ne: "0 < length st" by (simp add: root_ok_def)
  have "root_ok (add_child st p c)"
    using r ne lv[of 0] nt[of 0] by (auto simp: root_ok_def add_child_def)
  moreover have "level_monotone (add_child st p c)"
    unfolding level_monotone_iff add_child_length
  proof (intro allI impI ballI)
    fix a x assume a: "a < length st" and x: "x \<in> set (children (add_child st p c ! a))"
    from ch[OF a] x have "x \<in> set (children (st ! a)) \<or> (a = p \<and> x = c)" by (auto split: if_splits)
    then have "x < length st \<and> level (st ! a) < level (st ! x)"
      using m a assms by (auto simp: level_monotone_iff)
    then show "x < length st \<and> level (add_child st p c ! a) < level (add_child st p c ! x)"
      using a by (simp add: lv)
  qed
  moreover have "extends st (add_child st p c)"
    by (simp add: extends_def add_child_length lv)
  ultimately show ?thesis by (simp add: store_ok_def)
qed

lemma append_node_ok:
  assumes "store_ok st" "children n = []"
  shows "store_ok (st @ [n]) \<and> extends st (st @ [n])"
proof -
  from assms have r: "root_ok st" and m: "level_monotone st" by (auto simp: store_ok_def)
  have "root_ok (st @ [n])" using r by (auto simp: root_ok_def nth_append)
  moreover have "level_monotone (st @ [n])"
    unfolding level_monotone_iff
  proof (intro allI impI ballI)
    fix a x assume a: "a < length (st @ [n])" and x: "x \<in> set (children ((st @ [n]) ! a))"
    from x assms(2) have a': "a < length st" using a by (cases "a = length st") (auto simp: nth_append)
    with x have "x \<in> set (children (st ! a))" by (simp add: nth_append)
    with m a' have "x < length st \<and> level (st ! a) < level (st ! x)" by (auto simp: level_monotone_iff)
    then show "x < length (st @ [n]) \<and> level ((st @ [n]) ! a) < level ((st @ [n]) ! x)"
      using a' by (simp add: nth_append)
  qed
  moreover have "extends st (st @ [n])" by (simp add: extends_def nth_append)
  ultimately show ?thesis by (simp add: store_ok_def)
qed

lemma add_new_child_ok:
  assumes "store_ok st" "p < length st" "children n = []" "level (st ! p) < level n"
  shows "store_ok (add_new_child p st n) \<and> extends st (add_new_child p st n)"
proof -
  from append_node_ok[OF assms(1,3)] have 1: "store_ok (st @ [n])" and 2: "extends st (st @ [n])"
    by auto
  have "store_ok (add_child (st @ [n]) p (length st)) \<and> extends (st @ [n]) (add_child (st @ [n]) p (length st))"
    by (rule add_child_ok[OF 1]) (use assms in \<open>auto simp: nth_append\<close>)
  then show ?thesis using 2 by (auto simp: add_new_child_def intro: extends_trans)
qed

lemma add_new_children_ok:
  assumes "\<forall>n \<in> set ns. children n = [] \<and> l < level n"
  shows "store_ok st \<Longrightarrow> p < length st \<Longrightarrow> level (st ! p) = l \<Longrightarrow>
         store_ok (fold (\<lambda>n st'. add_new_child p st' n) ns st) \<and>
         extends st (fold (\<lambda>n st'. add_new_child p st' n) ns st)"
  using assms
proof (induction ns arbitrary: st)
  case Nil
  then show ?case by (simp add: extends_refl)
next
  case (Cons n ns)
  let ?st1 = "add_new_child p st n"
  have 1: "store_ok ?st1 \<and> extends st ?st1"
    by (rule add_new_child_ok) (use Cons.prems in auto)
  then have "p < length ?st1" "level (?st1 ! p) = l"
    using Cons.prems(2,3) by (auto simp: extends_def)
  with Cons.IH[of ?st1] 1 Cons.prems(4)
  have "store_ok (fold (\<lambda>n st'. add_new_child p st' n) ns ?st1) \<and>
        extends ?st1 (fold (\<lambda>n st'. add_new_child p st' n) ns ?st1)" by auto
  with 1 show ?case by (auto intro: extends_trans)
qed

lemma element_node_props: "n \<in> set (element_node l e) \<Longrightarrow> children n = [] \<and> level n = l"
  by (auto simp: element_node_def mk_node_def split: if_splits option.splits)

lemma structured_nodes_props: "n \<in> set (structured_nodes txt l) \<Longrightarrow> children n = [] \<and> level n = l"
  by (auto simp: structured_nodes_def dest: element_node_props)

lemma add_structured_ok:
  assumes "store_ok st" "sec < length st"
  shows "store_ok (add_structured_content_to_section txt sec st) \<and>
         extends st (add_structured_content_to_section txt sec st)"
  unfolding add_structured_content_to_section_def
  by (rule add_new_children_ok[where l = "level (st ! sec)"])
     (use assms in \<open>auto dest: structured_nodes_props\<close>)


lemma update_fields_ok:
  assumes "store_ok st" "cur < length st"
    "k = ''section_with_definition''"
  shows "store_ok (st[cur := (st ! cur)\<lparr>content := c, node_type := k\<rparr>]) \<and>
         extends st (st[cur := (st ! cur)\<lparr>content := c, node_type := k\<rparr>])"
proof -
  let ?st = "st[cur := (st ! cur)\<lparr>content := c, node_type := k\<rparr>]"
  have lv: "\<And>a. a < length st \<Longrightarrow> level (?st ! a) = level (st ! a)"
    using assms(2) by (simp add: nth_list_update)
  have ch: "\<And>a. a < length st \<Longrightarrow> children (?st ! a) = children (st ! a)"
    using assms(2) by (simp add: nth_list_update)
  from assms have r: "root_ok st" and m: "level_monotone st" by (auto simp: store_ok_def)
  have "root_ok ?st"
  proof (cases "cur = 0")
    case True
    with r assms(2,3) show ?thesis by (simp add: root_ok_def)
  next
    case False
    with r assms(2) show ?thesis by (simp add: root_ok_def)
  qed
  moreover have "level_monotone ?st"
    using m unfolding level_monotone_iff by (simp add: lv ch)
  moreover have "extends st ?st" by (simp add: extends_def lv)
  ultimately show ?thesis by (simp add: store_ok_def)
qed

lemma loose_theorem_ok:
  assumes "store_ok st" "cur < length st"
  shows "store_ok (loose_theorem cur r st) \<and> extends st (loose_theorem cur r st)"
proof (cases "group r 1 = ''definition'' \<and> content (st ! cur) = [] \<and> children (st ! cur) = []")
  case True
  then show ?thesis
    using update_fields_ok[OF assms refl] by (simp add: loose_theorem_def Let_def)
next
  case False
  have "store_ok (add_new_child cur st
          (mk_node (title_case (group r 1)) (clean_latex_text (group r 2)) (group r 1)
             (level (st ! cur) + 1))) \<and>
        extends st (add_new_child cur st
          (mk_node (title_case (group r 1)) (clean_latex_text (group r 2)) (group r 1)
             (level (st ! cur) + 1)))"
    by (rule add_new_child_ok) (use assms in \<open>auto simp: mk_node_def\<close>)
  with False show ?thesis by (auto simp: loose_theorem_def Let_def)
qed

lemma loose_equation_ok:
  assumes "store_ok st" "cur < length st"
  shows "store_ok (loose_equation cur r st) \<and> extends st (loose_equation cur r st)"
  unfolding loose_equation_def
  by (rule add_new_child_ok) (use assms in \<open>auto simp: mk_node_def\<close>)

lemma fold_step_ok:
  assumes step: "\<And>r st. store_ok st \<Longrightarrow> cur < length st \<Longrightarrow>
                   store_ok (f r st) \<and> extends st (f r st)"
  shows "store_ok st \<Longrightarrow> cur < length st \<Longrightarrow>
         store_ok (fold f rs st) \<and> extends st (fold f rs st)"
proof (induction rs arbitrary: st)
  case Nil
  then show ?case by (simp add: extends_refl)
next
  case (Cons r rs)
  from step[OF Cons.prems] have 1: "store_ok (f r st)" "extends st (f r st)" by auto
  then have "cur < length (f r st)" using Cons.prems(2) by (simp add: extends_def)
  from Cons.IH[OF 1(1) this] 1(2) show ?case by (auto intro: extends_trans)
qed

lemma stack_ok_lookup:
  "stack_ok st stk \<Longrightarrow> map_of stk l = Some a \<Longrightarrow> a < length st \<and> level (st ! a) = l"
  by (auto simp: stack_ok_def dest!: map_of_SomeD)

lemma add_content_ok:
  assumes "store_ok st" "stack_ok st stk"
  shows "\<exists>st'. add_content_to_current_section txt stk st = Inr st' \<and> store_ok st' \<and> extends st st'"
proof (cases "map_of stk (Max (set (map fst stk)))")
  case None
  with assms show ?thesis
    by (auto simp: add_content_to_current_section_def stack_ok_def extends_refl)
next
  case (Some cur)
  with assms(2) have c: "cur < length st" by (auto dest: stack_ok_lookup)
  let ?st1 = "fold (loose_theorem cur) (re_finditer (m_env THEOREM_ENVS) txt) st"
  have 1: "store_ok ?st1 \<and> extends st ?st1"
    by (rule fold_step_ok[where cur = cur, OF loose_theorem_ok]) (use assms c in simp_all)
  then have c1: "cur < length ?st1" using c by (simp add: extends_def)
  let ?st2 = "fold (loose_equation cur) (re_finditer m_equation_env txt) ?st1"
  have 2: "store_ok ?st2 \<and> extends ?st1 ?st2"
    by (rule fold_step_ok[where cur = cur, OF loose_equation_ok]) (use 1 c1 in simp_all)
  have "add_content_to_current_section txt stk st = Inr ?st2"
    using Some assms(2) by (simp add: add_content_to_current_section_def stack_ok_def)
  with 1 2 show ?thesis by (auto intro: extends_trans)
qed

lemma find_parent_level_le: "find_parent_level stk pl \<le> pl"
proof (induction stk pl rule: find_parent_level.induct)
  case (1 stk pl)
  show ?case
  proof (cases "pl \<ge> 0 \<and> map_of stk pl = None")
    case True
    with 1 have "find_parent_level stk (pl - 1) \<le> pl - 1" by simp
    with True show ?thesis by (subst find_parent_level.simps) simp
  next
    case False
    then show ?thesis by (subst find_parent_level.simps) auto
  qed
qed

lemma find_parent_level_found:
  "find_parent_level stk pl \<ge> 0 \<Longrightarrow> map_of stk (find_parent_level stk pl) \<noteq> None"
proof (induction stk pl rule: find_parent_level.induct)
  case (1 stk pl)
  show ?case
  proof (cases "pl \<ge> 0 \<and> map_of stk pl = None")
    case True
    then have eq: "find_parent_level stk pl = find_parent_level stk (pl - 1)"
      by (subst find_parent_level.simps) simp
    with 1 True show ?thesis by simp
  next
    case False
    then have eq: "find_parent_level stk pl = pl"
      by (subst find_parent_level.simps) auto
    with 1(2) False show ?thesis by auto
  qed
qed

lemma attach_section_ok:
  assumes "store_ok st" "stack_ok st stk" "a < length st" "level (st ! a) = lvl"
  shows "\<exists>st'. attach_section stk lvl a st = Inr st' \<and> store_ok st' \<and> extends st st'"
proof (cases "find_parent_level stk (lvl - 1) \<ge> 0")
  case False
  with assms show ?thesis by (auto simp: attach_section_def Let_def extends_refl)
next
  case True
  from find_parent_level_found[OF True] obtain p
    where p: "map_of stk (find_parent_level stk (lvl - 1)) = Some p" by auto
  from stack_ok_lookup[OF assms(2) p]
  have pl: "p < length st" "level (st ! p) = find_parent_level stk (lvl - 1)" by auto
  have "level (st ! p) < level (st ! a)"
    using find_parent_level_le[of stk "lvl - 1"] pl assms(4) by simp
  from add_child_ok[OF assms(1) pl(1) assms(3) this] True p
  show ?thesis by (auto simp: attach_section_def Let_def)
qed


lemma set_update_subset: "set (AList.update k v al) \<subseteq> insert (k, v) (set al)"
  by (induction al) (auto simp: AList.update.simps)

lemma update_mem: "(k, v) \<in> set (AList.update k v al)"
  by (induction al) (auto simp: AList.update.simps)

lemma stack_step_ok:
  assumes "stack_ok st stk" "a < length st" "level (st ! a) = lvl"
  shows "stack_ok st (filter (\<lambda>(l, _). \<not> l > lvl) (AList.update lvl a stk))"
proof -
  have "(lvl, a) \<in> set (filter (\<lambda>(l, _). \<not> l > lvl) (AList.update lvl a stk))"
    using update_mem[of lvl a stk] by simp
  then have ne: "filter (\<lambda>(l, _). \<not> l > lvl) (AList.update lvl a stk) \<noteq> []"
    by (metis empty_iff empty_set)
  have "\<forall>(l, b) \<in> set (filter (\<lambda>(l, _). \<not> l > lvl) (AList.update lvl a stk)).
          b < length st \<and> level (st ! b) = l"
    using set_update_subset[of lvl a stk] assms by (fastforce simp: stack_ok_def)
  with ne show ?thesis by (simp add: stack_ok_def)
qed

lemma pre_content_step_ok:
  assumes "store_ok st" "stack_ok st stk"
  shows "\<exists>st'. pre_content_step txt r stk pos st = Inr st' \<and> store_ok st' \<and> extends st st'"
  using add_content_ok[OF assms] assms(1)
  by (auto simp: pre_content_step_def Let_def extends_refl)

lemma section_step_ok:
  assumes "store_ok st" "stack_ok st stk"
  shows "\<exists>st' stk'. section_step txt r nxt (st, stk, pos) = Inr (st', stk', nxt) \<and>
           store_ok st' \<and> stack_ok st' stk'"
proof -
  from pre_content_step_ok[OF assms, of "txt" r pos] obtain st1
    where 1: "pre_content_step txt r stk pos st = Inr st1" "store_ok st1" "extends st st1"
    by auto
  define sc where "sc = strip (slice txt (m_end r) nxt)"
  define lvl where "lvl = section_level (group r 1)"
  define nd where "nd = mk_node (clean_latex_text (group r 2)) (extract_main_text sc) (group r 1) lvl"
  define st2 where "st2 = st1 @ [nd]"
  have 2: "store_ok st2" "extends st1 st2"
    using append_node_ok[OF 1(2), of nd] by (auto simp: st2_def nd_def mk_node_def)
  have a: "length st1 < length st2" "level (st2 ! length st1) = lvl"
    by (auto simp: st2_def nd_def mk_node_def)
  have s2: "stack_ok st2 stk"
    using assms(2) 1(3) 2(2) by (blast intro: stack_ok_extends)
  from attach_section_ok[OF 2(1) s2 a] obtain st3
    where 3: "attach_section stk lvl (length st1) st2 = Inr st3" "store_ok st3" "extends st2 st3"
    by auto
  define stk2 where "stk2 = filter (\<lambda>(l, _). \<not> l > lvl) (AList.update lvl (length st1) stk)"
  have a3: "length st1 < length st3" "level (st3 ! length st1) = lvl"
    using a 3(3) by (auto simp: extends_def)
  have s3: "stack_ok st3 stk"
    using s2 3(3) by (blast intro: stack_ok_extends)
  have k3: "stack_ok st3 stk2"
    unfolding stk2_def by (rule stack_step_ok[OF s3 a3])
  define st4 where "st4 =
    (if extract_remaining_content sc \<noteq> []
     then add_structured_content_to_section (extract_remaining_content sc) (length st1) st3
     else st3)"
  have 4: "store_ok st4 \<and> extends st3 st4"
    using add_structured_ok[OF 3(2) a3(1)] 3(2) by (auto simp: st4_def extends_refl)
  then have k4: "stack_ok st4 stk2" using k3 by (blast intro: stack_ok_extends)
  have "section_step txt r nxt (st, stk, pos) = Inr (st4, stk2, nxt)"
    using 1(1) 3(1)
    unfolding section_step_def st4_def stk2_def st2_def nd_def lvl_def sc_def
    by (simp add: Let_def)
  with 4 k4 show ?thesis by blast
qed

lemma parse_sections_ok:
  "store_ok st \<Longrightarrow> stack_ok st stk \<Longrightarrow>
   \<exists>st' stk' pos'. parse_sections txt rs (st, stk, pos) = Inr (st', stk', pos') \<and>
      store_ok st' \<and> stack_ok st' stk'"
proof (induction rs arbitrary: st stk pos)
  case Nil
  then show ?case by simp
next
  case (Cons r rs)
  let ?nxt = "case rs of [] \<Rightarrow> length txt | r' # _ \<Rightarrow> m_start r'"
  from section_step_ok[OF Cons.prems, of "txt" r ?nxt pos] obtain st1 stk1
    where 1: "section_step txt r ?nxt (st, stk, pos) = Inr (st1, stk1, ?nxt)"
      "store_ok st1" "stack_ok st1 stk1" by blast
  from Cons.IH[OF 1(2,3), of ?nxt] 1(1) show ?case by simp
qed

lemma initial_ok:
  "store_ok [mk_node t [] ''document'' 0] \<and> stack_ok [mk_node t [] ''document'' 0] [(0, 0)]"
  by (simp add: store_ok_def root_ok_def level_monotone_def children_ok_def stack_ok_def mk_node_def)

lemma parse_with_regex_fallback_ok:
  "\<exists>st. parse_with_regex_fallback txt (mk_node t [] ''document'' 0) = Inr st \<and> store_ok st"
proof -
  from initial_ok[of t] have i: "store_ok [mk_node t [] ''document'' 0]"
    "stack_ok [mk_node t [] ''document'' 0] [(0, 0)]" by auto
  from parse_sections_ok[OF i, of "txt" "re_finditer m_section txt" 0] obtain st stk pos
    where 1: "parse_sections txt (re_finditer m_section txt) ([mk_node t [] ''document'' 0], [(0, 0)], 0)
                = Inr (st, stk, pos)" "store_ok st" "stack_ok st stk" by blast
  from add_content_ok[OF 1(2,3), of "strip (drop pos txt)"] obtain st'
    where 2: "add_content_to_current_section (strip (drop pos txt)) stk st = Inr st'" "store_ok st'"
    by blast
  show ?thesis
    using 1 2 by (auto simp: parse_with_regex_fallback_def Let_def)
qed


text \<open>
  C6 (level monotonicity and the root), refuted as stated. The claim: every child's level
  is greater than its parent's, and the root has level 0 and kind \<^verbatim>\<open>document\<close>. For a body
  without sections that starts with a definition environment, the loose-text rule merges the
  definition into the current section, which is the root, and the root's kind becomes
  \<^verbatim>\<open>section_with_definition\<close>.
\<close>

theorem C6_counterexample:
  "parse (bs ''begin{definition}A widget is...'' @ bs ''end{definition}'') =
     Inr [mk_node ''LaTeX Document'' ''A widget is...'' ''section_with_definition'' 0]"
  by code_simp

text \<open>
  C6 as amended: for every input the parser returns a tree (it raises no error) in which
  every child of every node is a node of the tree with a level strictly greater than the
  node's own, and the root has level 0. The kind of the root is left out.
\<close>

theorem C6_level_monotone:
  "\<exists>st. parse tex = Inr st \<and> level_monotone st \<and> st \<noteq> [] \<and> level (st ! 0) = 0"
  using parse_with_regex_fallback_ok[of "extract_document_body tex" "document_title tex"]
  by (auto simp: parse_def Let_def store_ok_def root_ok_def)

section \<open>Blank equations and empty theorem environments\<close>

lemma proj_append: "proj (xs @ ys) = proj xs @ proj ys"
  by (simp add: proj_def)

lemma proj_single_update: "proj [e\<lparr>e_explanation := x\<rparr>] = proj [e]"
  by (simp add: proj_def core_def)

lemma proj_attach_before: "proj (attach_before t acc) = proj acc"
proof (cases "acc \<noteq> [] \<and> e_type (last acc) = ''equation''")
  case True
  then have "acc = butlast acc @ [last acc]" by simp
  then have "proj acc = proj (butlast acc) @ proj [last acc]"
    by (metis proj_append)
  with True show ?thesis
    by (simp add: attach_before_def proj_append proj_single_update)
next
  case False
  then show ?thesis by (auto simp: attach_before_def)
qed

lemma proj_enhance:
  "proj (enhance txt es acc p) = proj acc @ proj es"
proof (induction es arbitrary: acc p)
  case Nil
  then show ?case by (simp add: proj_def)
next
  case (Cons e es)
  define acc1 where "acc1 =
    (if e_start e > p then
       (let text_before = strip (slice txt p (e_start e)) in
        if text_before \<noteq> [] \<and> \<not> starts_with_command text_before then
          (let text_before_clean = clean_latex_text text_before in
           if text_before_clean \<noteq> [] then attach_before text_before_clean acc else acc)
        else acc)
     else acc)"
  have 1: "proj acc1 = proj acc"
    by (simp add: acc1_def Let_def proj_attach_before)
  define nxt where "nxt = (case es of [] \<Rightarrow> length txt | e' # _ \<Rightarrow> e_start e')"
  define ta where "ta = strip (slice txt (e_end e) nxt)"
  define acc3 where "acc3 =
    (if ta \<noteq> [] \<and> \<not> starts_with_command ta then
       (let tc = clean_latex_text ta in
        if tc \<noteq> [] then
          (if e_type e = ''equation'' then
             butlast (acc1 @ [e]) @ [(last (acc1 @ [e]))\<lparr>e_explanation := Some tc\<rparr>]
           else
             (acc1 @ [e]) @
               [\<lparr>e_type = ''explanation'', e_content = tc, e_start = e_end e,
                 e_end = nxt, e_title = ''Explanation'', e_explanation = None\<rparr>])
        else acc1 @ [e])
     else acc1 @ [e])"
  have 3: "proj acc3 = proj acc1 @ proj [e]"
    by (simp add: acc3_def Let_def proj_append proj_single_update) (simp add: proj_def)
  have "enhance txt (e # es) acc p = enhance txt es acc3 nxt"
    unfolding acc3_def ta_def nxt_def acc1_def by (simp add: Let_def)
  then show ?case
    using Cons.IH[of acc3 nxt] 1 3 by (simp add: proj_def)
qed

lemma proj_enhanced: "proj (enhanced_elements txt) = proj (all_elements txt)"
  by (simp add: enhanced_elements_def proj_enhance) (simp add: proj_def)

lemma equation_element_type: "e \<in> set (equation_element r) \<Longrightarrow> e_type e = ''equation''"
  by (auto simp: equation_element_def Let_def split: if_splits)

lemma equation_elements_type: "e \<in> set (equation_elements txt) \<Longrightarrow> e_type e = ''equation''"
  by (auto simp: equation_elements_def dest: equation_element_type)

lemma theorem_elements_type: "e \<in> set (theorem_elements txt) \<Longrightarrow> e_type e = ''theorem''"
  by (auto simp: theorem_elements_def theorem_element_def)

lemma paragraph_elements_type: "e \<in> set (paragraph_elements txt) \<Longrightarrow> e_type e = ''paragraph''"
  by (auto simp: paragraph_elements_def paragraph_element_def Let_def split: if_splits)

lemma filter_all: "(\<And>x. x \<in> set xs \<Longrightarrow> P x) \<Longrightarrow> filter P xs = xs"
  by (induction xs) auto

lemma filter_none: "(\<And>x. x \<in> set xs \<Longrightarrow> \<not> P x) \<Longrightarrow> filter P xs = []"
  by (induction xs) auto

lemma finditer_from_sorted:
  "sorted (map m_start (re_finditer_from m p s)) \<and> (\<forall>r \<in> set (re_finditer_from m p s). p \<le> m_start r)"
proof (induction m p s rule: re_finditer_from.induct)
  case (1 m p)
  then show ?case by simp
next
  case (2 m p c cs)
  show ?case
  proof (cases "m (c # cs)")
    case None
    with 2(1) show ?thesis by fastforce
  next
    case (Some a)
    obtain n gs where a: "a = (n, gs)" by (cases a)
    from 2(2)[OF Some a[symmetric]] Some a show ?thesis by fastforce
  qed
qed

lemma theorem_elements_sorted: "sorted (map e_start (theorem_elements txt))"
proof -
  have "map e_start (theorem_elements txt) = map m_start (re_finditer (m_env THEOREM_ENVS) txt)"
    by (simp add: theorem_elements_def theorem_element_def comp_def)
  then show ?thesis using finditer_from_sorted[of "m_env THEOREM_ENVS" 0 "txt"]
    by (simp add: re_finditer_def)
qed

lemma all_elements_theorems:
  "filter (\<lambda>e. e_type e = ''theorem'') (all_elements txt) = theorem_elements txt"
proof -
  have "filter (\<lambda>e. e_type e = ''theorem'')
          (equation_elements txt @ theorem_elements txt @ paragraph_elements txt) =
        theorem_elements txt"
  proof -
    have "filter (\<lambda>e. e_type e = ''theorem'') (equation_elements txt) = []"
      by (rule filter_none) (auto dest: equation_elements_type)
    moreover have "filter (\<lambda>e. e_type e = ''theorem'') (theorem_elements txt) = theorem_elements txt"
      by (rule filter_all) (auto dest: theorem_elements_type)
    moreover have "filter (\<lambda>e. e_type e = ''theorem'') (paragraph_elements txt) = []"
      by (rule filter_none) (auto dest: paragraph_elements_type)
    ultimately show ?thesis by simp
  qed
  then show ?thesis
    by (simp add: all_elements_def filter_sort sort_key_id_if_sorted theorem_elements_sorted
             del: filter_append)
qed

lemma all_elements_equations:
  "length (filter (\<lambda>e. e_type e = ''equation'') (all_elements txt)) = length (equation_elements txt)"
proof -
  have "filter (\<lambda>e. e_type e = ''equation'')
          (equation_elements txt @ theorem_elements txt @ paragraph_elements txt) =
        equation_elements txt"
  proof -
    have "filter (\<lambda>e. e_type e = ''equation'') (equation_elements txt) = equation_elements txt"
      by (rule filter_all) (auto dest: equation_elements_type)
    moreover have "filter (\<lambda>e. e_type e = ''equation'') (theorem_elements txt) = []"
      by (rule filter_none) (auto dest: theorem_elements_type)
    moreover have "filter (\<lambda>e. e_type e = ''equation'') (paragraph_elements txt) = []"
      by (rule filter_none) (auto dest: paragraph_elements_type)
    ultimately show ?thesis by simp
  qed
  then show ?thesis
    by (simp add: all_elements_def filter_sort del: filter_append)
qed


lemma all_elements_no_explanation:
  "e \<in> set (all_elements txt) \<Longrightarrow> e_type e \<noteq> ''explanation''"
  by (auto simp: all_elements_def
           dest: equation_elements_type theorem_elements_type paragraph_elements_type)

lemma proj_all_elements: "proj (all_elements txt) = map core (all_elements txt)"
  by (simp add: proj_def filter_all all_elements_no_explanation)

lemma nodes_equation_count:
  "length (filter (\<lambda>n. is_equation_kind (node_type n)) (concat (map (element_node l) es))) =
   length (filter (\<lambda>c. fst c = ''equation'') (proj es))"
  by (induction es)
     (auto simp: proj_def core_def element_node_def mk_node_def is_equation_kind_def
           split: option.splits)

lemma nodes_theorems:
  "map (\<lambda>n. (title n, content n, level n))
     (filter (\<lambda>n. node_type n = ''theorem'') (concat (map (element_node l) es))) =
   map (\<lambda>c. (snd (snd c), fst (snd c), l)) (filter (\<lambda>c. fst c = ''theorem'') (proj es))"
  by (induction es)
     (auto simp: proj_def core_def element_node_def mk_node_def split: option.splits)

lemma equation_elements_length:
  "length (equation_elements txt) =
   sum_list (map (\<lambda>m. length (filter (\<lambda>r. strip (eq_inner r) \<noteq> []) (re_finditer m txt)))
     equation_patterns)"
proof -
  have 1: "(\<Sum>r\<leftarrow>rs. length (equation_element r)) =
           length (filter (\<lambda>r. strip (eq_inner r) \<noteq> []) rs)" for rs
    by (induction rs) (auto simp: equation_element_def Let_def)
  show ?thesis
    by (simp add: equation_elements_def length_concat comp_def 1)
qed

lemma structured_equation_count:
  "length (filter (\<lambda>n. is_equation_kind (node_type n)) (structured_nodes txt l)) =
   sum_list (map (\<lambda>m. length (filter (\<lambda>r. strip (eq_inner r) \<noteq> []) (re_finditer m txt)))
     equation_patterns)"
proof -
  have "length (filter (\<lambda>c. fst c = ''equation'') (map core (all_elements txt))) =
        length (filter (\<lambda>e. e_type e = ''equation'') (all_elements txt))"
    by (simp add: filter_map comp_def core_def)
  then show ?thesis
    by (simp add: structured_nodes_def nodes_equation_count proj_enhanced proj_all_elements
          all_elements_equations equation_elements_length)
qed

lemma structured_theorems:
  "map (\<lambda>n. (title n, content n, level n))
     (filter (\<lambda>n. node_type n = ''theorem'') (structured_nodes txt l)) =
   map (\<lambda>r. (title_case (group r 1), clean_latex_text (group r 2), l))
     (re_finditer (m_env THEOREM_ENVS) txt)"
proof -
  have "filter (\<lambda>c. fst c = ''theorem'') (map core (all_elements txt)) =
        map core (filter (\<lambda>e. e_type e = ''theorem'') (all_elements txt))"
    by (simp add: filter_map comp_def core_def)
  then show ?thesis
    by (simp add: structured_nodes_def nodes_theorems proj_enhanced proj_all_elements
          all_elements_theorems theorem_elements_def theorem_element_def core_def comp_def)
qed

lemma fold_add_new_child:
  "sec < length st \<Longrightarrow>
   fold (\<lambda>n st'. add_new_child sec st' n) ns st =
     st[sec := (st ! sec)\<lparr>children := children (st ! sec) @ [length st ..< length st + length ns]\<rparr>] @ ns"
proof (induction ns arbitrary: st)
  case Nil
  then show ?case by simp
next
  case (Cons n ns)
  let ?st1 = "add_new_child sec st n"
  have st1: "?st1 = st[sec := (st ! sec)\<lparr>children := children (st ! sec) @ [length st]\<rparr>] @ [n]"
    using Cons.prems by (simp add: add_new_child_def add_child_def list_update_append1 nth_append)
  then have len: "length ?st1 = Suc (length st)" "sec < length ?st1" using Cons.prems by auto
  have u: "[length st ..< Suc (length st + length ns)] =
           length st # [Suc (length st) ..< Suc (length st + length ns)]"
    by (rule upt_conv_Cons) simp
  have "fold (\<lambda>n st'. add_new_child sec st' n) (n # ns) st =
        fold (\<lambda>n st'. add_new_child sec st' n) ns ?st1" by simp
  also have "\<dots> = ?st1[sec := (?st1 ! sec)\<lparr>children := children (?st1 ! sec) @
                 [length ?st1 ..< length ?st1 + length ns]\<rparr>] @ ns"
    by (rule Cons.IH[OF len(2)])
  also have "\<dots> = st[sec := (st ! sec)\<lparr>children := children (st ! sec) @
                 [length st ..< length st + length (n # ns)]\<rparr>] @ n # ns"
    using Cons.prems by (simp add: st1 list_update_append1 nth_append u del: upt_Suc)
  finally show ?case .
qed

lemma add_structured_store:
  "sec < length st \<Longrightarrow>
   add_structured_content_to_section txt sec st =
     st[sec := (st ! sec)\<lparr>children := children (st ! sec) @
          [length st ..< length st + length (structured_nodes txt (level (st ! sec) + 1))]\<rparr>] @
       structured_nodes txt (level (st ! sec) + 1)"
  by (simp add: add_structured_content_to_section_def fold_add_new_child)


text \<open>
  C10 (blank display math is dropped, an empty theorem environment is kept), refuted as
  stated. The claim: a display-math element with blank inner text produces no node at all.
  Such a match is not recorded as an element, but its source text stays in the span as
  ordinary text between elements: after the theorem environment of this section, the blank
  \<^verbatim>\<open>$$ $$\<close> is taken for prose and becomes an explanation node of its own.
\<close>

theorem C10_counterexample:
  "parse (bs ''section{A}'' @ bs ''begin{theorem}T'' @ bs ''end{theorem}$$ $$'') =
     Inr [mk_node ''A'' [] ''document'' 0 \<lparr>children := [1]\<rparr>,
          mk_node ''A'' [] ''section'' 2 \<lparr>children := [2, 3]\<rparr>,
          mk_node ''Theorem'' ''T'' ''theorem'' 3,
          mk_node ''Explanation'' ''$$ $$'' ''explanation'' 3]"
  by code_simp

text \<open>
  C10 as amended: for every section content span, the block extractor appends its new nodes
  as the last children of the section, and among them (1) the equation nodes (kind
  \<^verbatim>\<open>equation\<close> or \<^verbatim>\<open>equation_with_explanation\<close>) are exactly as many as the matches of the
  three display-math expressions whose inner text is not blank, so that a match with blank
  inner text produces no equation node; (2) the nodes made for theorem environments (the
  block extractor gives them the kind \<^verbatim>\<open>theorem\<close>) are, in order, one for every match of
  the theorem-environment expression, with the capitalized environment name as title and
  the sanitized body as content, also when the body is empty. Nothing is
  said about what becomes of the source text of a blank display-math match.
\<close>

theorem C10_blank_equations_and_empty_theorems:
  "sec < length st \<longrightarrow>
     (let st' = add_structured_content_to_section txt sec st;
          new = drop (length st) st' in
      children (st' ! sec) = children (st ! sec) @ [length st ..< length st'] \<and>
      length (filter (\<lambda>n. is_equation_kind (node_type n)) new) =
        sum_list (map (\<lambda>m. length (filter (\<lambda>r. strip (eq_inner r) \<noteq> []) (re_finditer m txt)))
          equation_patterns) \<and>
      map (\<lambda>n. (title n, content n, level n)) (filter (\<lambda>n. node_type n = ''theorem'') new) =
        map (\<lambda>r. (title_case (group r 1), clean_latex_text (group r 2), level (st ! sec) + 1))
          (re_finditer (m_env THEOREM_ENVS) txt))"
  by (simp add: Let_def add_structured_store structured_equation_count structured_theorems
        nth_append)

theorem C10_blank_equations_and_empty_theorems_witness:
  "0 < length [mk_node ''A'' [] ''section'' 2] \<and>
   add_structured_content_to_section
       (bs ''begin{equation} '' @ bs ''end{equation}'' @ bs ''[ '' @ bs '']'' @
        bs ''begin{theorem}'' @ bs ''end{theorem}'')
       0 [mk_node ''A'' [] ''section'' 2] =
     [mk_node ''A'' [] ''section'' 2 \<lparr>children := [1]\<rparr>, mk_node ''Theorem'' [] ''theorem'' 3] \<and>
   sum_list (map (\<lambda>m. length (filter (\<lambda>r. strip (eq_inner r) \<noteq> [])
       (re_finditer m (bs ''begin{equation} '' @ bs ''end{equation}'' @ bs ''[ '' @ bs '']'' @
                       bs ''begin{theorem}'' @ bs ''end{theorem}''))))
     equation_patterns) = 0 \<and>
   map (\<lambda>m. length (re_finditer m (bs ''begin{equation} '' @ bs ''end{equation}'' @ bs ''[ '' @
                       bs '']'' @ bs ''begin{theorem}'' @ bs ''end{theorem}'')))
     equation_patterns = [1, 1, 0]"
  using C10_blank_equations_and_empty_theorems
          [of 0 "[mk_node ''A'' [] ''section'' 2]"
              "bs ''begin{equation} '' @ bs ''end{equation}'' @ bs ''[ '' @ bs '']'' @
               bs ''begin{theorem}'' @ bs ''end{theorem}''"]
  by code_simp

section \<open>Sectioning commands and their nodes\<close>


















lemma starts_with_append: "starts_with p (p @ s)"
  by (induction p) auto



















lemma tries_top: "k (lo + d) = Some r \<Longrightarrow> tries k lo d = Some r"
  by (cases d) auto














section \<open>The sanitizer on plain text\<close>

lemma re_sub_no_match: "(\<And>s. plain s \<Longrightarrow> m s = None) \<Longrightarrow> plain t \<Longrightarrow> re_sub m f t = t"
  by (induction t) auto

lemma re_sub_math_no_match:
  "(\<And>s. plain s \<Longrightarrow> m s = None) \<Longrightarrow> plain t \<Longrightarrow> re_sub_math m es t = (t, es)"
  by (induction t) auto

lemma greedy_empty: "hi < lo \<Longrightarrow> greedy k lo hi = None"
  by (simp add: greedy_def)

lemma run_not_alpha: "\<not> starts_markup cs \<Longrightarrow> run is_alpha cs = 0"
  by (cases cs) (auto simp: starts_markup_def run_def)

lemma m_dollar_math_None: "plain s \<Longrightarrow> m_dollar_math s = None"
  by (cases s) (auto simp: m_dollar_math_def is_markup_char_def)

lemma m_paren_math_None: "plain s \<Longrightarrow> m_paren_math s = None"
proof (cases s)
  case Nil
  then show ?thesis by (simp add: m_paren_math_def m_paren_body_def)
next
  case (Cons c cs)
  assume "plain s"
  with Cons have "c = bslash \<Longrightarrow> \<not> starts_markup cs" by simp
  then show ?thesis
    using Cons by (cases cs) (auto simp: m_paren_math_def m_paren_body_def starts_markup_def)
qed

lemma m_command_arg_None: "plain s \<Longrightarrow> m_command_arg s = None"
  by (cases s) (auto simp: m_command_arg_def run_not_alpha greedy_empty)

lemma m_command_bare_None: "plain s \<Longrightarrow> m_command_bare s = None"
  by (cases s) (auto simp: m_command_bare_def run_not_alpha greedy_empty)

lemma m_braces_None: "plain s \<Longrightarrow> m_braces s = None"
  by (cases s) (auto simp: m_braces_def m_brace_arg_def is_markup_char_def)

lemma m_linebreak_None: "plain s \<Longrightarrow> m_linebreak s = None"
proof (cases s)
  case Nil
  then show ?thesis by (simp add: m_linebreak_def m_lit_def)
next
  case (Cons c cs)
  assume "plain s"
  with Cons have "c = bslash \<Longrightarrow> \<not> starts_markup cs" by simp
  then show ?thesis
    using Cons by (cases cs) (auto simp: m_linebreak_def m_lit_def starts_markup_def)
qed

lemma re_sub_tilde: "re_sub m_tilde (\<lambda>_ _. '' '') t = map tilde_to_space t"
  by (induction t) (auto simp: m_tilde_def m_lit_def tilde_to_space_def)

lemma m_spaces_Cons:
  "m_spaces (c # cs) = (if is_space c then Some (Suc (run is_space cs), []) else None)"
  by (simp add: m_spaces_def run_def greedy_def tries_top)

lemma collapse_True: "collapse_from True cs = collapse_from False (dropWhile is_space cs)"
  by (induction cs) auto

lemma re_sub_spaces: "re_sub m_spaces (\<lambda>_ _. '' '') u = collapse_from False u"
proof (induction u rule: length_induct)
  case (1 u)
  show ?case
  proof (cases u)
    case Nil
    then show ?thesis by simp
  next
    case (Cons c cs)
    show ?thesis
    proof (cases "is_space c")
      case True
      have d: "drop (run is_space cs) cs = dropWhile is_space cs"
        by (simp add: run_def dropWhile_eq_drop)
      have "length (dropWhile is_space cs) < length u"
        using Cons by (simp add: less_Suc_eq_le length_dropWhile_le)
      with 1 have "re_sub m_spaces (\<lambda>_ _. '' '') (dropWhile is_space cs) =
                   collapse_from False (dropWhile is_space cs)" by blast
      with True Cons d show ?thesis by (simp add: m_spaces_Cons collapse_True)
    next
      case False
      have "length cs < length u" using Cons by simp
      with 1 have "re_sub m_spaces (\<lambda>_ _. '' '') cs = collapse_from False cs" by blast
      with False Cons show ?thesis by (simp add: m_spaces_Cons)
    qed
  qed
qed

lemma restore_math_Nil: "restore_math [] t = t"
  by (simp add: restore_math_def enumerate_eq_zip)

lemma clean_plain:
  assumes "plain t"
  shows "clean_latex_text t = normalize_whitespace t"
proof -
  have 1: "re_sub_math m_dollar_math [] t = (t, [])"
    by (rule re_sub_math_no_match[OF m_dollar_math_None assms])
  have 2: "re_sub_math m_paren_math [] t = (t, [])"
    by (rule re_sub_math_no_match[OF m_paren_math_None assms])
  have 3: "re_sub m_command_arg (\<lambda>_ gs. gs ! 0) t = t"
    by (rule re_sub_no_match[OF m_command_arg_None assms])
  have 4: "re_sub m_command_bare (\<lambda>_ _. []) t = t"
    by (rule re_sub_no_match[OF m_command_bare_None assms])
  have 5: "re_sub m_braces (\<lambda>_ gs. gs ! 0) t = t"
    by (rule re_sub_no_match[OF m_braces_None assms])
  have 6: "re_sub m_linebreak (\<lambda>_ _. '' '') t = t"
    by (rule re_sub_no_match[OF m_linebreak_None assms])
  have "strip_commands t = collapse_from False (map tilde_to_space t)"
    by (simp add: strip_commands_def Let_def 3 4 5 6 re_sub_tilde re_sub_spaces)
  then show ?thesis
    by (simp add: clean_latex_text_def 1 2 restore_math_Nil normalize_whitespace_def)
qed

lemma single_spaced_collapse: "single_spaced prev (collapse_from prev x)"
  by (induction x arbitrary: prev) (auto simp: is_space_def)

lemma single_spaced_weaken: "single_spaced prev x \<Longrightarrow> single_spaced False x"
  by (cases x) (auto split: if_splits)

lemma single_spaced_prefix: "single_spaced prev (xs @ ys) \<Longrightarrow> single_spaced prev xs"
  by (induction xs arbitrary: prev) (auto split: if_splits)

lemma single_spaced_dropWhile:
  "single_spaced prev x \<Longrightarrow> single_spaced False (dropWhile is_space x)"
proof (induction x arbitrary: prev)
  case Nil
  then show ?case by simp
next
  case (Cons c cs)
  show ?case
  proof (cases "is_space c")
    case True
    with Cons.prems have "single_spaced True cs" by simp
    from Cons.IH[OF this] True show ?thesis by simp
  next
    case False
    with Cons.prems have "single_spaced False (c # cs)" by simp
    with False show ?thesis by simp
  qed
qed

lemma rev_dropWhile_rev_prefix: "xs = rev (dropWhile P (rev xs)) @ rev (takeWhile P (rev xs))"
  by (metis rev_append rev_rev_ident takeWhile_dropWhile_id)

lemma single_spaced_strip: "single_spaced prev x \<Longrightarrow> single_spaced False (strip x)"
proof -
  assume "single_spaced prev x"
  then have 1: "single_spaced False (dropWhile is_space x)" by (rule single_spaced_dropWhile)
  have "dropWhile is_space x =
          rev (dropWhile is_space (rev (dropWhile is_space x))) @
          rev (takeWhile is_space (rev (dropWhile is_space x)))"
    by (rule rev_dropWhile_rev_prefix)
  with 1 have "single_spaced False (rev (dropWhile is_space (rev (dropWhile is_space x))) @
          rev (takeWhile is_space (rev (dropWhile is_space x))))" by simp
  then show ?thesis unfolding strip_def by (rule single_spaced_prefix)
qed

lemma collapse_single_spaced: "single_spaced prev x \<Longrightarrow> collapse_from prev x = x"
  by (induction x arbitrary: prev) (auto split: if_splits)

lemma dropWhile_rev_dropWhile:
  "dropWhile P (rev (dropWhile P (rev (dropWhile P w)))) = rev (dropWhile P (rev (dropWhile P w)))"
proof -
  define a where "a = dropWhile P w"
  define b where "b = dropWhile P (rev a)"
  have a: "a = rev b @ rev (takeWhile P (rev a))"
    unfolding b_def by (rule rev_dropWhile_rev_prefix)
  have "dropWhile P (rev b) = rev b"
  proof (cases "rev b")
    case Nil
    then show ?thesis by simp
  next
    case (Cons c cs)
    with a have "hd a = c" "a \<noteq> []" by (metis append_Cons list.sel(1), auto)
    then have "\<not> P c" unfolding a_def using hd_dropWhile by metis
    with Cons show ?thesis by simp
  qed
  then show ?thesis by (simp add: a_def b_def)
qed

lemma strip_strip: "strip (strip w) = strip w"
  by (simp add: strip_def dropWhile_rev_dropWhile)

lemma set_collapse: "set (collapse_from prev x) \<subseteq> insert (CHR '' '') (set x)"
  by (induction x arbitrary: prev) auto

lemma set_strip: "set (strip x) \<subseteq> set x"
proof -
  have "set (dropWhile is_space (rev (dropWhile is_space x))) \<subseteq> set (rev (dropWhile is_space x))"
    by (rule set_dropWhileD[THEN subsetI])
  moreover have "set (dropWhile is_space x) \<subseteq> set x"
    by (rule set_dropWhileD[THEN subsetI])
  ultimately show ?thesis by (auto simp: strip_def)
qed

lemma set_normalize:
  "set (normalize_whitespace t) \<subseteq> insert (CHR '' '') (tilde_to_space ` set t)"
  using set_strip[of "collapse_from False (map tilde_to_space t)"]
        set_collapse[of False "map tilde_to_space t"]
  by (auto simp: normalize_whitespace_def)

lemma plain_tilde: "plain t \<Longrightarrow> plain (map tilde_to_space t)"
proof (induction t)
  case Nil
  then show ?case by simp
next
  case (Cons c cs)
  have s: "starts_markup (map tilde_to_space cs) \<Longrightarrow> starts_markup cs"
    by (cases cs) (auto simp: starts_markup_def tilde_to_space_def is_alpha_def is_upper_def
          is_lower_def Let_def split: if_splits)
  from Cons.prems have h: "\<not> is_markup_char (tilde_to_space c)"
    by (auto simp: tilde_to_space_def is_markup_char_def)
  have b: "tilde_to_space c = bslash \<longleftrightarrow> c = bslash"
    by (auto simp: tilde_to_space_def)
  from Cons s h b show ?case by auto
qed

lemma starts_markup_collapse: "starts_markup (collapse_from False cs) \<Longrightarrow> starts_markup cs"
  by (cases cs) (auto simp: starts_markup_def is_alpha_def is_upper_def is_lower_def Let_def
        split: if_splits)

lemma plain_collapse: "plain x \<Longrightarrow> plain (collapse_from prev x)"
proof (induction x arbitrary: prev)
  case Nil
  then show ?case by simp
next
  case (Cons c cs)
  show ?case
  proof (cases "is_space c")
    case True
    with Cons show ?thesis by (auto simp: is_markup_char_def)
  next
    case False
    with Cons starts_markup_collapse[of cs] show ?thesis by auto
  qed
qed

lemma plain_suffix: "plain x \<Longrightarrow> plain (dropWhile P x)"
  by (induction x) auto

lemma plain_prefix: "plain (xs @ ys) \<Longrightarrow> plain xs"
proof (induction xs)
  case Nil
  then show ?case by simp
next
  case (Cons c cs)
  have "starts_markup cs \<Longrightarrow> starts_markup (cs @ ys)"
    by (cases cs) (auto simp: starts_markup_def)
  with Cons show ?case by auto
qed

lemma plain_strip: "plain x \<Longrightarrow> plain (strip x)"
proof -
  assume "plain x"
  then have 1: "plain (dropWhile is_space x)" by (rule plain_suffix)
  have "dropWhile is_space x =
          rev (dropWhile is_space (rev (dropWhile is_space x))) @
          rev (takeWhile is_space (rev (dropWhile is_space x)))"
    by (rule rev_dropWhile_rev_prefix)
  with 1 have "plain (rev (dropWhile is_space (rev (dropWhile is_space x))) @
          rev (takeWhile is_space (rev (dropWhile is_space x))))" by simp
  then show ?thesis unfolding strip_def by (rule plain_prefix)
qed

lemma plain_normalize: "plain t \<Longrightarrow> plain (normalize_whitespace t)"
  unfolding normalize_whitespace_def by (intro plain_strip plain_collapse plain_tilde)

lemma no_tilde_normalize: "CHR ''~'' \<notin> set (normalize_whitespace t)"
  using set_normalize[of t] by (auto simp: tilde_to_space_def)

lemma normalize_idem: "normalize_whitespace (normalize_whitespace t) = normalize_whitespace t"
proof -
  let ?u = "normalize_whitespace t"
  have 1: "map tilde_to_space ?u = ?u"
    using no_tilde_normalize[of t] by (auto simp: tilde_to_space_def intro: map_idI)
  have 2: "single_spaced False ?u"
    unfolding normalize_whitespace_def
    by (rule single_spaced_strip[OF single_spaced_collapse])
  have 3: "collapse_from False ?u = ?u" by (rule collapse_single_spaced[OF 2])
  have "normalize_whitespace ?u = strip ?u"
    by (simp add: normalize_whitespace_def[of ?u] 1 3)
  also have "\<dots> = ?u" by (simp add: normalize_whitespace_def[of t] strip_strip)
  finally show ?thesis .
qed


text \<open>
  C9 (idempotence on plain text): on text without markup commands, braces and math
  delimiters the sanitizer returns the whitespace-normalized text, and sanitizing its result
  again changes nothing.
\<close>

theorem C9_sanitizer_idempotent_on_plain_text:
  "plain t \<longrightarrow>
     clean_latex_text t = normalize_whitespace t \<and>
     clean_latex_text (clean_latex_text t) = clean_latex_text t"
  by (simp add: clean_plain plain_normalize normalize_idem)

theorem C9_sanitizer_idempotent_on_plain_text_witness:
  "plain (''  a~tilde  50'' @ bs ''% and   spaces  '') \<and>
   clean_latex_text (''  a~tilde  50'' @ bs ''% and   spaces  '') =
     ''a tilde 50'' @ bs ''% and spaces'' \<and>
   normalize_whitespace (''  a~tilde  50'' @ bs ''% and   spaces  '') =
     ''a tilde 50'' @ bs ''% and spaces'' \<and>
   clean_latex_text (clean_latex_text (''  a~tilde  50'' @ bs ''% and   spaces  '')) =
     ''a tilde 50'' @ bs ''% and spaces''"
  using C9_sanitizer_idempotent_on_plain_text [of "''  a~tilde  50'' @ bs ''% and   spaces  ''"]
  by code_simp

section \<open>Title resolution\<close>















































section \<open>Truncation in compact rendering\<close>

















lemma short_title_length: "length (short_title s) \<le> 50"
  by (simp add: short_title_def)













end
